theory Spec2Isabelle
  imports Main "HOL-Library.AList"
begin

section \<open>The debounce utility (script.js, lines 7-17)\<close>

text \<open>
  A debounced wrapper together with the host's timer table. Time is counted in whole
  milliseconds. A pending timer holds the handle \<open>setTimeout\<close> returned, the instant it
  is due and the arguments its callback \<open>later\<close> closed over. The wrapper closes over
  \<open>wait\<close> and the variable \<open>timeout\<close> (\<open>None\<close> while undefined). The wrapped function
  \<open>func\<close> is observed through the log \<open>invoked\<close> of its calls (the instant and the
  arguments of each call); \<open>func\<close> itself does not call the wrapper.
\<close>

record 'a timer =
  tid :: nat
  due :: nat
  targs :: "'a"

record 'a debounced =
  clock :: nat
  next_tid :: nat
  queue :: "'a timer list"
  wait :: nat
  timeout :: "nat option"
  invoked :: "(nat \<times> 'a) list"

text \<open>\<open>clearTimeout(h)\<close>: an undefined or stale handle is ignored by the host.\<close>

definition clearTimeout :: "nat option \<Rightarrow> 'a debounced \<Rightarrow> 'a debounced" where
  "clearTimeout h s =
     (case h of None \<Rightarrow> s
      | Some i \<Rightarrow> s\<lparr>queue := filter (\<lambda>t. tid t \<noteq> i) (queue s)\<rparr>)"

text \<open>\<open>setTimeout(later, wait)\<close>: a fresh handle, due \<open>wait\<close> after the current instant.\<close>

definition setTimeout :: "'a \<Rightarrow> nat \<Rightarrow> 'a debounced \<Rightarrow> nat \<times> 'a debounced" where
  "setTimeout a w s =
     (next_tid s,
      s\<lparr>queue := queue s @ [\<lparr>tid = next_tid s, due = clock s + w, targs = a\<rparr>],
        next_tid := Suc (next_tid s)\<rparr>)"

text \<open>The closure \<open>later\<close>: \<open>clearTimeout(timeout); func(...args)\<close>.\<close>

definition later :: "'a \<Rightarrow> 'a debounced \<Rightarrow> 'a debounced" where
  "later a s =
     (let s1 = clearTimeout (timeout s) s
      in s1\<lparr>invoked := invoked s1 @ [(clock s1, a)]\<rparr>)"

text \<open>
  The wrapper \<open>executedFunction(...args)\<close>:
  \<open>clearTimeout(timeout); timeout = setTimeout(later, wait)\<close>.
\<close>

definition executedFunction :: "'a \<Rightarrow> 'a debounced \<Rightarrow> 'a debounced" where
  "executedFunction a s =
     (let s1 = clearTimeout (timeout s) s;
          (i, s2) = setTimeout a (wait s1) s1
      in s2\<lparr>timeout := Some i\<rparr>)"

text \<open>
  The host's event loop. Among the pending timers due by instant \<open>T\<close> the one due first
  runs first, the one registered first among equals; the clock stands at its due instant
  while its callback runs.
\<close>

fun earliest :: "'a timer list \<Rightarrow> 'a timer option" where
  "earliest [] = None"
| "earliest (t # ts) =
     (case earliest ts of
        None \<Rightarrow> Some t
      | Some u \<Rightarrow> if due t \<le> due u then Some t else Some u)"

definition next_due :: "nat \<Rightarrow> 'a timer list \<Rightarrow> 'a timer option" where
  "next_due T q = earliest (filter (\<lambda>t. due t \<le> T) q)"

definition fire :: "'a timer \<Rightarrow> 'a debounced \<Rightarrow> 'a debounced" where
  "fire t s =
     later (targs t)
       (s\<lparr>clock := max (clock s) (due t),
          queue := filter (\<lambda>u. tid u \<noteq> tid t) (queue s)\<rparr>)"

lemma earliest_mem: "earliest q = Some t \<Longrightarrow> t \<in> set q"
  by (induction q arbitrary: t) (auto split: option.splits if_splits)

lemma next_due_mem: "next_due T q = Some t \<Longrightarrow> t \<in> set q"
  unfolding next_due_def using earliest_mem by fastforce

lemma fire_shrinks:
  assumes "next_due T (queue s) = Some t"
  shows "length (queue (fire t s)) < length (queue s)"
proof -
  have mem: "t \<in> set (queue s)" using assms by (rule next_due_mem)
  have less: "length (filter (\<lambda>u. tid u \<noteq> tid t) (queue s)) < length (queue s)"
    using mem by (intro length_filter_less[of t]) auto
  have "length (queue (fire t s)) \<le> length (filter (\<lambda>u. tid u \<noteq> tid t) (queue s))"
    by (cases "timeout s") (simp_all add: fire_def later_def clearTimeout_def Let_def del: filter_filter)
  with less show ?thesis by simp
qed

function run_until :: "nat \<Rightarrow> 'a debounced \<Rightarrow> 'a debounced" where
  "run_until T s =
     (case next_due T (queue s) of
        None \<Rightarrow> s\<lparr>clock := max (clock s) T\<rparr>
      | Some t \<Rightarrow> run_until T (fire t s))"
  by pat_completeness auto
termination
  by (relation "measure (\<lambda>(T, s). length (queue s))") (auto simp: fire_shrinks)

declare run_until.simps [simp del]

text \<open>
  A call of the wrapper at an instant: the host first runs what fell due by then.
  \<open>debounce(func, w)\<close> returns the wrapper with \<open>timeout\<close> undefined; the page is then at
  instant 0 with no timer pending.
\<close>

definition call_at :: "'a debounced \<Rightarrow> nat \<times> 'a \<Rightarrow> 'a debounced" where
  "call_at s c = executedFunction (snd c) (run_until (fst c) s)"

definition debounce :: "nat \<Rightarrow> 'a debounced" where
  "debounce w =
     \<lparr>clock = 0, next_tid = 0, queue = [], wait = w, timeout = None, invoked = []\<rparr>"

text \<open>A burst: the calls come in time order, each less than \<open>w\<close> after the one before.\<close>

fun burst :: "nat \<Rightarrow> (nat \<times> 'a) list \<Rightarrow> bool" where
  "burst w [] = True"
| "burst w [c] = True"
| "burst w (c # d # cs) = (fst c \<le> fst d \<and> fst d < fst c + w \<and> burst w (d # cs))"

section \<open>The document and the page state\<close>

text \<open>
  Elements live in a store indexed by node reference, so that two selectors that find the
  same node update the same element. An element carries what the script reads and writes:
  its class list, its attributes (\<open>id\<close>, \<open>href\<close>, \<open>aria-expanded\<close>, \<open>data-src\<close>,
  \<open>src\<close>), its text, its inline style and whether an \<open>onload\<close> handler is installed.
\<close>

type_synonym ref = nat

record element =
  classList :: "string list"
  attributes :: "(string \<times> string) list"
  textContent :: string
  style :: "(string \<times> string) list"
  onload :: bool

definition classList_contains :: "string \<Rightarrow> element \<Rightarrow> bool" where
  "classList_contains c el = (c \<in> set (classList el))"

definition classList_add :: "string \<Rightarrow> element \<Rightarrow> element" where
  "classList_add c el =
     (if c \<in> set (classList el) then el else el\<lparr>classList := classList el @ [c]\<rparr>)"

definition classList_remove :: "string \<Rightarrow> element \<Rightarrow> element" where
  "classList_remove c el = el\<lparr>classList := removeAll c (classList el)\<rparr>"

text \<open>\<open>classList.toggle(token, force)\<close>: adds the token when \<open>force\<close> is true, removes it otherwise.\<close>

definition classList_toggle :: "string \<Rightarrow> bool \<Rightarrow> element \<Rightarrow> element" where
  "classList_toggle c force el = (if force then classList_add c el else classList_remove c el)"

definition getAttribute :: "string \<Rightarrow> element \<Rightarrow> string option" where
  "getAttribute k el = map_of (attributes el) k"

definition setAttribute :: "string \<Rightarrow> string \<Rightarrow> element \<Rightarrow> element" where
  "setAttribute k v el = el\<lparr>attributes := AList.update k v (attributes el)\<rparr>"

definition removeAttribute :: "string \<Rightarrow> element \<Rightarrow> element" where
  "removeAttribute k el = el\<lparr>attributes := AList.delete k (attributes el)\<rparr>"

definition set_style :: "string \<Rightarrow> string \<Rightarrow> element \<Rightarrow> element" where
  "set_style k v el = el\<lparr>style := AList.update k v (style el)\<rparr>"

text \<open>
  Exceptions are values. An outcome keeps the page as it stands when the exception is
  thrown: what a function wrote before it threw stays written.
\<close>

datatype js_error = TypeError | ReferenceError | HostError string

datatype 'p outcome = Ok 'p | Throw js_error 'p

fun run_steps :: "('p \<Rightarrow> 'p outcome) list \<Rightarrow> 'p \<Rightarrow> 'p outcome" where
  "run_steps [] p = Ok p"
| "run_steps (f # fs) p =
     (case f p of Ok q \<Rightarrow> run_steps fs q | Throw err q \<Rightarrow> Throw err q)"

datatype event_target = Document | Window | Node ref

text \<open>
  A registered listener is recorded by a tag. The bodies of the listeners the properties
  below are about are the functions \<open>toggleSidebar\<close> (the button's click flips, the
  overlay's click forces hidden), \<open>sidebar_link_click\<close>, \<open>keydown_handler\<close> and
  \<open>visibility_handler\<close>.
\<close>

datatype handler =
  HamburgerClick | OverlayClick | SidebarLinkClick | AnchorClick | Keydown
  | HandleResize | VisibilityChange

datatype console_entry = Log string | Warn string js_error | Uncaught js_error

text \<open>The library and host calls of the particle-field setup, in the order of the source.\<close>

datatype setup_step =
  NewScene | NewPerspectiveCamera | NewWebGLRenderer | SetPixelRatio
  | SetSize | UpdateProjectionMatrix
  | NewBufferGeometry | NewFloat32Array | NewBufferAttribute | SetPositionAttribute
  | NewPointsMaterial | NewPoints | SceneAdd | NewClock
  | GetElapsedTime | Render

text \<open>
  What does not change while the page is open: the host's capabilities, which library
  calls throw in this host, and the nodes each selector of the script finds (the script
  never adds or removes a node, nor the classes and tags those selectors test).
\<close>

record env =
  prefersReducedMotion :: bool
  three_defined :: bool
  io_supported :: bool
  throws :: "setup_step \<Rightarrow> js_error option"
  sections :: "ref list"
  navLinks :: "ref list"
  hamburger :: "ref option"
  sidebar :: "ref option"
  overlay :: "ref option"
  canvas :: "ref option"
  body :: ref
  sidebar_links :: "ref list"
  typewriterElement :: "ref option"
  images :: "ref list"
  anchors :: "ref list"

record entry =
  isIntersecting :: bool
  target :: ref

text \<open>
  What changes: the element store, \<open>document.hidden\<close>, the registered listeners, the
  focused node, the console, and the variables each component closes over.
\<close>

record page =
  elems :: "ref \<Rightarrow> element"
  hidden :: bool
  listeners :: "(event_target \<times> string \<times> handler) list"
  focused :: "ref option"
  console :: "console_entry list"
  section_observed :: "ref list"
  phraseIndex :: nat
  charIndex :: int
  isDeleting :: bool
  now :: nat
  timeouts :: "nat list"
  timer_invocations :: nat
  frames :: "nat list"
  next_frame :: nat
  animationId :: "nat option"
  renders :: nat
  image_observed :: "ref list"
  src_assigned :: "(ref \<times> string) list"

definition update_el :: "ref \<Rightarrow> (element \<Rightarrow> element) \<Rightarrow> page \<Rightarrow> page" where
  "update_el r f p = p\<lparr>elems := (elems p)(r := f (elems p r))\<rparr>"

definition addEventListener :: "event_target \<Rightarrow> string \<Rightarrow> handler \<Rightarrow> page \<Rightarrow> page" where
  "addEventListener t ev h p = p\<lparr>listeners := listeners p @ [(t, ev, h)]\<rparr>"

text \<open>The \<open>display\<close> property of an element's inline style.\<close>

definition display_of :: "ref \<Rightarrow> page \<Rightarrow> string option" where
  "display_of r p = map_of (style (elems p r)) ''display''"

text \<open>The page as the host hands it to the \<open>DOMContentLoaded\<close> handler.\<close>

definition fresh_page :: "(ref \<Rightarrow> element) \<Rightarrow> bool \<Rightarrow> page" where
  "fresh_page els hid =
     \<lparr>elems = els, hidden = hid, listeners = [], focused = None, console = [],
      section_observed = [], phraseIndex = 0, charIndex = 0, isDeleting = False,
      now = 0, timeouts = [], timer_invocations = 0,
      frames = [], next_frame = 0, animationId = None, renders = 0,
      image_observed = [], src_assigned = []\<rparr>"

section \<open>The sidebar controller (script.js, lines 38-62 and 264-269)\<close>

text \<open>
  \<open>toggleSidebar(show)\<close>. The argument is \<open>None\<close> for \<open>undefined\<close>. Reading a property of
  a \<open>null\<close> element throws a \<open>TypeError\<close> at that statement.
\<close>

definition toggleSidebar :: "env \<Rightarrow> bool option \<Rightarrow> page \<Rightarrow> page outcome" where
  "toggleSidebar e show p =
     (case sidebar e of
        None \<Rightarrow> Throw TypeError p
      | Some sb \<Rightarrow>
          let isVisible = classList_contains ''show'' (elems p sb);
              showSidebar = (case show of Some b \<Rightarrow> b | None \<Rightarrow> \<not> isVisible)
          in (case hamburger e of
                None \<Rightarrow> Throw TypeError p
              | Some hb \<Rightarrow>
                  let p1 = update_el hb (classList_toggle ''active'' showSidebar) p;
                      p2 = update_el sb (classList_toggle ''show'' showSidebar) p1
                  in (case overlay e of
                        None \<Rightarrow> Throw TypeError p2
                      | Some ov \<Rightarrow>
                          let p3 = update_el ov (classList_toggle ''show'' showSidebar) p2;
                              p4 = update_el (body e)
                                     (classList_toggle ''sidebar-open'' showSidebar) p3
                          in Ok (update_el hb
                                   (setAttribute ''aria-expanded''
                                      (if showSidebar then ''true'' else ''false'')) p4))))"

text \<open>The sidebar's state is the \<open>show\<close> class of the panel.\<close>

definition sidebar_visible :: "env \<Rightarrow> page \<Rightarrow> bool" where
  "sidebar_visible e p =
     (case sidebar e of None \<Rightarrow> False | Some sb \<Rightarrow> classList_contains ''show'' (elems p sb))"

definition init_sidebar :: "env \<Rightarrow> page \<Rightarrow> page" where
  "init_sidebar e p =
     (case (hamburger e, sidebar e, overlay e) of
        (Some hb, Some sb, Some ov) \<Rightarrow>
          foldl (\<lambda>q link. addEventListener (Node link) ''click'' SidebarLinkClick q)
            (addEventListener (Node ov) ''click'' OverlayClick
               (addEventListener (Node hb) ''click'' HamburgerClick p))
            (sidebar_links e)
      | _ \<Rightarrow> p)"

definition sidebar_link_click :: "env \<Rightarrow> page \<Rightarrow> page outcome" where
  "sidebar_link_click e p =
     (case sidebar e of
        None \<Rightarrow> Throw TypeError p
      | Some sb \<Rightarrow>
          if classList_contains ''show'' (elems p sb) then toggleSidebar e (Some False) p
          else Ok p)"

text \<open>
  The \<open>keydown\<close> listener of the document:
  \<open>if (e.key === "Escape" && sidebar.classList.contains("show")) { toggleSidebar(false); hamburger.focus(); }\<close>
\<close>

definition keydown_handler :: "env \<Rightarrow> string \<Rightarrow> page \<Rightarrow> page outcome" where
  "keydown_handler e key p =
     (if key = ''Escape'' then
        (case sidebar e of
           None \<Rightarrow> Throw TypeError p
         | Some sb \<Rightarrow>
             if classList_contains ''show'' (elems p sb) then
               (case toggleSidebar e (Some False) p of
                  Throw err q \<Rightarrow> Throw err q
                | Ok q \<Rightarrow>
                    (case hamburger e of
                       None \<Rightarrow> Throw TypeError q
                     | Some hb \<Rightarrow> Ok (q\<lparr>focused := Some hb\<rparr>)))
             else Ok p)
      else Ok p)"

definition init_keyboard :: "page \<Rightarrow> page" where
  "init_keyboard p = addEventListener Document ''keydown'' Keydown p"

section \<open>The scroll-spy (script.js, lines 65-87)\<close>

text \<open>The template literal \<open>`#${id}`\<close>: a \<open>null\<close> identifier reads as the text \<open>null\<close>.\<close>

definition fragment_of :: "string option \<Rightarrow> string" where
  "fragment_of i = ''#'' @ (case i of None \<Rightarrow> ''null'' | Some s \<Rightarrow> s)"

definition mark_link :: "string \<Rightarrow> page \<Rightarrow> ref \<Rightarrow> page" where
  "mark_link frag p link =
     (let p1 = update_el link (classList_remove ''active'') p
      in if getAttribute ''href'' (elems p1 link) = Some frag
         then update_el link (classList_add ''active'') p1 else p1)"

definition section_entry :: "env \<Rightarrow> page \<Rightarrow> entry \<Rightarrow> page" where
  "section_entry e p en =
     (if isIntersecting en then
        (let id = getAttribute ''id'' (elems p (target en))
         in foldl (mark_link (fragment_of id)) p (navLinks e))
      else p)"

definition sectionObserver :: "env \<Rightarrow> entry list \<Rightarrow> page \<Rightarrow> page" where
  "sectionObserver e entries p = foldl (section_entry e) p entries"

text \<open>
  \<open>new IntersectionObserver\<close> is reached only when there are links and sections; where
  the host has no such constructor the reference throws.
\<close>

definition init_scrollspy :: "env \<Rightarrow> page \<Rightarrow> page outcome" where
  "init_scrollspy e p =
     (if navLinks e \<noteq> [] \<and> sections e \<noteq> [] then
        (if io_supported e
         then Ok (p\<lparr>section_observed := foldl (\<lambda>obs s. List.insert s obs) [] (sections e)\<rparr>)
         else Throw ReferenceError p)
      else Ok p)"

section \<open>The typing animator (script.js, lines 90-131)\<close>

definition phrases :: "string list" where
  "phrases = [''developer.'', ''problem solver.'', ''computer engineer.'']"

definition typeSpeed :: nat where "typeSpeed = 100"
definition deleteSpeed :: nat where "deleteSpeed = 50"
definition delayBetweenPhrases :: nat where "delayBetweenPhrases = 2000"

text \<open>\<open>s.substring(0, n)\<close>: a negative end counts as 0, an end past the string as its length.\<close>

definition substring0 :: "string \<Rightarrow> int \<Rightarrow> string" where
  "substring0 s n = take (nat n) s"

text \<open>\<open>setTimeout(animateTyping, d)\<close>: one more pending tick, due \<open>d\<close> ms from now.\<close>

definition schedule_tick :: "nat \<Rightarrow> page \<Rightarrow> page" where
  "schedule_tick d p = p\<lparr>timeouts := timeouts p @ [now p + d]\<rparr>"

text \<open>
  \<open>animateTyping\<close>, for the phrase list \<open>phs\<close> and the text element \<open>tw\<close>. Where the phrase
  index is past the list, \<open>currentPhrase\<close> is \<open>undefined\<close> and \<open>currentPhrase.substring\<close>
  throws before anything is written; the modulus is only reached for a non-empty list.
\<close>

definition animateTyping :: "env \<Rightarrow> string list \<Rightarrow> ref \<Rightarrow> page \<Rightarrow> page outcome" where
  "animateTyping e phs tw p =
     (if phraseIndex p < length phs then
        (let currentPhrase = phs ! phraseIndex p;
             displayText =
               (if isDeleting p then substring0 currentPhrase (charIndex p - 1)
                else substring0 currentPhrase (charIndex p + 1));
             p1 = p\<lparr>charIndex := (if isDeleting p then charIndex p - 1 else charIndex p + 1)\<rparr>;
             p2 = update_el tw (\<lambda>el. el\<lparr>textContent := displayText\<rparr>) p1;
             timeout = (if isDeleting p2 then deleteSpeed else typeSpeed);
             (p3, timeout) =
               (if \<not> isDeleting p2 \<and> charIndex p2 = int (length currentPhrase)
                then (p2\<lparr>isDeleting := True\<rparr>, delayBetweenPhrases)
                else if isDeleting p2 \<and> charIndex p2 = 0
                then (p2\<lparr>isDeleting := False,
                         phraseIndex := (phraseIndex p2 + 1) mod length phs\<rparr>, timeout)
                else (p2, timeout))
         in if \<not> prefersReducedMotion e then Ok (schedule_tick timeout p3)
            else Ok (update_el tw (\<lambda>el. el\<lparr>textContent := phs ! 0\<rparr>) p3))
      else Throw TypeError p)"

definition init_typing :: "env \<Rightarrow> page \<Rightarrow> page" where
  "init_typing e p =
     (case typewriterElement e of
        None \<Rightarrow> p
      | Some tw \<Rightarrow>
          schedule_tick 500 (p\<lparr>phraseIndex := 0, charIndex := 0, isDeleting := False\<rparr>))"

text \<open>
  The host runs the pending tick that is due first: the clock moves to its due instant,
  the timer leaves the table, the callback runs. An exception a callback throws is
  reported by the host and ends that callback only. With no tick pending nothing happens.
\<close>

definition tick :: "env \<Rightarrow> string list \<Rightarrow> page \<Rightarrow> page" where
  "tick e phs p =
     (case (typewriterElement e, timeouts p) of
        (Some tw, d # ds) \<Rightarrow>
          (let m = fold min ds d;
               p1 = p\<lparr>now := max (now p) m, timeouts := remove1 m (timeouts p),
                      timer_invocations := Suc (timer_invocations p)\<rparr>
           in (case animateTyping e phs tw p1 of
                 Ok q \<Rightarrow> q
               | Throw err q \<Rightarrow> q\<lparr>console := console q @ [Uncaught err]\<rparr>))
      | _ \<Rightarrow> p)"

text \<open>The page after the animator is set up on a fresh page and \<open>n\<close> ticks have run.\<close>

definition typing_after :: "env \<Rightarrow> string list \<Rightarrow> (ref \<Rightarrow> element) \<Rightarrow> nat \<Rightarrow> page" where
  "typing_after e phs els n = (tick e phs ^^ n) (init_typing e (fresh_page els False))"

definition displayed :: "env \<Rightarrow> page \<Rightarrow> string" where
  "displayed e p = (case typewriterElement e of None \<Rightarrow> [] | Some tw \<Rightarrow> textContent (elems p tw))"

section \<open>The particle-field renderer (script.js, lines 134-211)\<close>

text \<open>
  The scene, camera, geometry and material are objects of the library; the page keeps of
  them only whether each call returns or throws (\<open>throws\<close>). The rotation angles and the
  random positions are floating-point values no claim reads; \<open>renders\<close> counts the frames
  drawn.
\<close>

definition host_call :: "env \<Rightarrow> setup_step \<Rightarrow> page \<Rightarrow> page outcome" where
  "host_call e st p = (case throws e st of None \<Rightarrow> Ok p | Some err \<Rightarrow> Throw err p)"

definition requestAnimationFrame :: "page \<Rightarrow> nat \<times> page" where
  "requestAnimationFrame p =
     (next_frame p, p\<lparr>frames := frames p @ [next_frame p], next_frame := Suc (next_frame p)\<rparr>)"

definition cancelAnimationFrame :: "nat option \<Rightarrow> page \<Rightarrow> page" where
  "cancelAnimationFrame h p =
     (case h of None \<Rightarrow> p | Some i \<Rightarrow> p\<lparr>frames := removeAll i (frames p)\<rparr>)"

text \<open>
  \<open>animate\<close>: \<open>animationId = requestAnimationFrame(animate)\<close> comes first, then the clock is
  read and the scene drawn.
\<close>

definition animate :: "env \<Rightarrow> page \<Rightarrow> page outcome" where
  "animate e p =
     (let (i, p1) = requestAnimationFrame p
      in run_steps
           [host_call e GetElapsedTime, host_call e Render,
            \<lambda>q. Ok (q\<lparr>renders := Suc (renders q)\<rparr>)]
           (p1\<lparr>animationId := Some i\<rparr>))"

definition updateCanvasSize :: "env \<Rightarrow> page \<Rightarrow> page outcome" where
  "updateCanvasSize e = run_steps [host_call e SetSize, host_call e UpdateProjectionMatrix]"

text \<open>The \<open>visibilitychange\<close> listener.\<close>

definition visibility_handler :: "env \<Rightarrow> page \<Rightarrow> page outcome" where
  "visibility_handler e p =
     (if hidden p then Ok (cancelAnimationFrame (animationId p) p) else animate e p)"

text \<open>The body of the \<open>try\<close> block, statement by statement.\<close>

definition particles_setup :: "env \<Rightarrow> page \<Rightarrow> page outcome" where
  "particles_setup e =
     run_steps
       [host_call e NewScene, host_call e NewPerspectiveCamera, host_call e NewWebGLRenderer,
        host_call e SetPixelRatio, updateCanvasSize e,
        host_call e NewBufferGeometry, host_call e NewFloat32Array,
        host_call e NewBufferAttribute, host_call e SetPositionAttribute,
        host_call e NewPointsMaterial, host_call e NewPoints, host_call e SceneAdd,
        host_call e NewClock,
        animate e,
        \<lambda>q. Ok (addEventListener Window ''resize'' HandleResize q),
        \<lambda>q. Ok (addEventListener Document ''visibilitychange'' VisibilityChange q)]"

text \<open>The \<open>catch\<close> block: warn, then hide the canvas.\<close>

definition setup_failed :: "ref \<Rightarrow> js_error \<Rightarrow> page \<Rightarrow> page" where
  "setup_failed cv err p =
     update_el cv (set_style ''display'' ''none'')
       (p\<lparr>console := console p @ [Warn ''Three.js animation failed to initialize:'' err]\<rparr>)"

definition init_particles :: "env \<Rightarrow> page \<Rightarrow> page outcome" where
  "init_particles e p =
     (case canvas e of
        None \<Rightarrow> Ok p
      | Some cv \<Rightarrow>
          if three_defined e \<and> \<not> prefersReducedMotion e then
            (case particles_setup e p of
               Ok q \<Rightarrow> Ok q
             | Throw err q \<Rightarrow> Ok (setup_failed cv err q))
          else Ok p)"

text \<open>
  What the host does to a page with the renderer set up: the visibility of the page
  changes (\<open>document.hidden\<close> flips, then the listener runs), or a frame is due (every
  request pending at that moment is taken from the table and its callback \<open>animate\<close> runs).
\<close>

datatype page_event = VisibilityChanged | FrameDue

definition settle :: "page outcome \<Rightarrow> page" where
  "settle r = (case r of Ok q \<Rightarrow> q | Throw err q \<Rightarrow> q\<lparr>console := console q @ [Uncaught err]\<rparr>)"

definition page_step :: "env \<Rightarrow> page \<Rightarrow> page_event \<Rightarrow> page" where
  "page_step e p ev =
     (case ev of
        VisibilityChanged \<Rightarrow>
          (let p1 = p\<lparr>hidden := \<not> hidden p\<rparr>
           in if (Document, ''visibilitychange'', VisibilityChange) \<in> set (listeners p1)
              then settle (visibility_handler e p1) else p1)
      | FrameDue \<Rightarrow>
          foldl (\<lambda>q i. settle (animate e q)) (p\<lparr>frames := []\<rparr>) (frames p))"

section \<open>The lazy image loader (script.js, lines 214-242)\<close>

text \<open>\<open>img.src = v\<close> writes the \<open>src\<close> attribute; \<open>src_assigned\<close> logs every such write.\<close>

definition assign_src :: "ref \<Rightarrow> string \<Rightarrow> page \<Rightarrow> page" where
  "assign_src img v p =
     (update_el img (setAttribute ''src'' v) p)\<lparr>src_assigned := src_assigned p @ [(img, v)]\<rparr>"

text \<open>\<open>img.dataset.src\<close>, as the assignment to \<open>img.src\<close> reads it: \<open>undefined\<close> becomes text.\<close>

definition dataset_src :: "element \<Rightarrow> string" where
  "dataset_src el = (case getAttribute ''data-src'' el of None \<Rightarrow> ''undefined'' | Some v \<Rightarrow> v)"

definition image_entry :: "page \<Rightarrow> entry \<Rightarrow> page" where
  "image_entry p en =
     (if isIntersecting en then
        (let img = target en;
             p1 = assign_src img (dataset_src (elems p img)) p;
             p2 = update_el img (removeAttribute ''data-src'') p1;
             p3 = update_el img (\<lambda>el. el\<lparr>onload := True\<rparr>) p2
         in p3\<lparr>image_observed := removeAll img (image_observed p3)\<rparr>)
      else p)"

definition imageObserver :: "entry list \<Rightarrow> page \<Rightarrow> page" where
  "imageObserver entries p = foldl image_entry p entries"

text \<open>
  The options the observer is constructed with, \<open>{ rootMargin: "100px" }\<close>, in px. At a
  rendering update the host sees an observed node at some distance from the viewport (0
  inside it) and queues an entry that reports it as intersecting when the node lies within
  the margin. The callback receives the entries queued since it last ran, in order, so a
  batch can hold several entries for one node.
\<close>

definition rootMargin :: nat where
  "rootMargin = 100"

definition queued_entry :: "ref \<times> nat \<Rightarrow> entry" where
  "queued_entry ob = \<lparr>isIntersecting = (snd ob \<le> rootMargin), target = fst ob\<rparr>"

text \<open>\<open>document.querySelectorAll("img[data-src]")\<close>.\<close>

definition lazyImages :: "env \<Rightarrow> page \<Rightarrow> ref list" where
  "lazyImages e p = filter (\<lambda>i. getAttribute ''data-src'' (elems p i) \<noteq> None) (images e)"

definition observe_image :: "page \<Rightarrow> ref \<Rightarrow> page" where
  "observe_image p img =
     (let p1 = update_el img (set_style ''opacity'' ''0'') p;
          p2 = update_el img (set_style ''transition'' ''opacity 0.3s'') p1
      in p2\<lparr>image_observed := List.insert img (image_observed p2)\<rparr>)"

definition load_now :: "page \<Rightarrow> ref \<Rightarrow> page" where
  "load_now p img =
     update_el img (removeAttribute ''data-src'') (assign_src img (dataset_src (elems p img)) p)"

definition init_lazy :: "env \<Rightarrow> page \<Rightarrow> page" where
  "init_lazy e p =
     (if io_supported e \<and> lazyImages e p \<noteq> []
      then foldl observe_image p (lazyImages e p)
      else foldl load_now p (lazyImages e p))"

text \<open>
  Deliveries in which every batch holds at most one entry for a node, and only entries
  for nodes the observer is observing when the batch is delivered. The host promises the
  second condition, not the first.
\<close>

definition batch_ok :: "page \<Rightarrow> entry list \<Rightarrow> bool" where
  "batch_ok p b = (distinct (map target b) \<and> list_all (\<lambda>en. target en \<in> set (image_observed p)) b)"

fun deliveries_ok :: "page \<Rightarrow> entry list list \<Rightarrow> bool" where
  "deliveries_ok p [] = True"
| "deliveries_ok p (b # bs) = (batch_ok p b \<and> deliveries_ok (imageObserver b p) bs)"

definition deliver :: "entry list list \<Rightarrow> page \<Rightarrow> page" where
  "deliver bs p = foldl (\<lambda>q b. imageObserver b q) p bs"

text \<open>Whether some entry of the batches reports the node as intersecting.\<close>

definition came_near :: "ref \<Rightarrow> entry list list \<Rightarrow> bool" where
  "came_near img bs = list_ex (\<lambda>en. target en = img \<and> isIntersecting en) (concat bs)"

definition assigned_to :: "ref \<Rightarrow> page \<Rightarrow> string list" where
  "assigned_to img p = map snd (filter (\<lambda>a. fst a = img) (src_assigned p))"

section \<open>The smooth-scroll router's set-up (script.js, lines 245-261) and the handler\<close>

text \<open>\<open>document.querySelectorAll('a[href^="#"]')\<close>: the anchors whose \<open>href\<close> starts with \<open>#\<close>.\<close>

definition hash_anchors :: "env \<Rightarrow> page \<Rightarrow> ref list" where
  "hash_anchors e p =
     filter (\<lambda>a. case getAttribute ''href'' (elems p a) of
                   None \<Rightarrow> False | Some h \<Rightarrow> take 1 h = ''#'') (anchors e)"

definition init_smooth_scroll :: "env \<Rightarrow> page \<Rightarrow> page" where
  "init_smooth_scroll e p =
     foldl (\<lambda>q a. addEventListener (Node a) ''click'' AnchorClick q) p (hash_anchors e p)"

text \<open>
  What follows the particle-field block in the handler: the lazy loader, the anchor
  listeners, the keyboard listener and the final log line (its leading emoji left out).
\<close>

definition init_rest :: "env \<Rightarrow> page \<Rightarrow> page" where
  "init_rest e p =
     (let p1 = init_keyboard (init_smooth_scroll e (init_lazy e p))
      in p1\<lparr>console := console p1 @ [Log ''Portfolio initialized successfully!'']\<rparr>)"

text \<open>What precedes it: the sidebar listeners, the scroll-spy and the typing animator.\<close>

definition init_before :: "env \<Rightarrow> page \<Rightarrow> page outcome" where
  "init_before e p =
     (case init_scrollspy e (init_sidebar e p) of
        Ok q \<Rightarrow> Ok (init_typing e q)
      | Throw err q \<Rightarrow> Throw err q)"

definition DOMContentLoaded :: "env \<Rightarrow> page \<Rightarrow> page outcome" where
  "DOMContentLoaded e =
     run_steps [init_before e, init_particles e, \<lambda>q. Ok (init_rest e q)]"

section \<open>A sample document\<close>

text \<open>
  A page with every element the script looks for: the body (node 0), the menu button,
  the panel and the overlay (1, 2, 3), the canvas (4), the typing element (5, empty at
  first), three sections (10, 11, 12) and a fourth with no identifier (13), four links of
  the navigation (20 to 23) and two images with a deferred source (30, 31).
\<close>

definition blank :: element where
  "blank = \<lparr>classList = [], attributes = [], textContent = [], style = [], onload = False\<rparr>"

definition demo_elems :: "ref \<Rightarrow> element" where
  "demo_elems =
     (\<lambda>r. blank)
       (1 := blank\<lparr>classList := [''hamburger'']\<rparr>,
        2 := blank\<lparr>classList := [''sidebar'']\<rparr>,
        3 := blank\<lparr>classList := [''overlay'']\<rparr>,
        4 := blank\<lparr>attributes := [(''id'', ''bg-canvas'')]\<rparr>,
        5 := blank\<lparr>attributes := [(''id'', ''typing-effect'')]\<rparr>,
        10 := blank\<lparr>attributes := [(''id'', ''home'')]\<rparr>,
        11 := blank\<lparr>attributes := [(''id'', ''about'')]\<rparr>,
        12 := blank\<lparr>attributes := [(''id'', ''contact'')]\<rparr>,
        13 := blank,
        20 := blank\<lparr>attributes := [(''href'', ''#home'')], classList := [''active'']\<rparr>,
        21 := blank\<lparr>attributes := [(''href'', ''#about'')]\<rparr>,
        22 := blank\<lparr>attributes := [(''href'', ''#contact'')]\<rparr>,
        23 := blank\<lparr>attributes := [(''href'', ''#null'')]\<rparr>,
        30 := blank\<lparr>attributes := [(''data-src'', ''a.png'')]\<rparr>,
        31 := blank\<lparr>attributes := [(''data-src'', ''b.png'')]\<rparr>)"

definition shown_panel :: element where
  "shown_panel = blank\<lparr>classList := [''sidebar'', ''show'']\<rparr>"

definition demo_env :: env where
  "demo_env =
     \<lparr>prefersReducedMotion = False, three_defined = True, io_supported = True,
      throws = (\<lambda>st. None),
      sections = [10, 11, 12, 13], navLinks = [20, 21, 22, 23],
      hamburger = Some 1, sidebar = Some 2, overlay = Some 3, canvas = Some 4, body = 0,
      sidebar_links = [20, 21, 22, 23], typewriterElement = Some 5,
      images = [30, 31], anchors = [20, 21, 22, 23]\<rparr>"

text \<open>
  Three deliveries of the image observer: both images far from the viewport, then the
  first one within the margin, then the second inside the viewport. And one batch of
  three entries for the first image, queued while it came within the margin, left it and
  came back before the callback ran.
\<close>

definition demo_batches :: "entry list list" where
  "demo_batches =
     map (map queued_entry) [[(30, 900), (31, 1500)], [(30, 60)], [(31, 0)]]"

definition near_far_near :: "entry list" where
  "near_far_near = map queued_entry [(30, 50), (30, 500), (30, 80)]"

text \<open>A host in which creating the rendering context throws.\<close>

definition no_webgl_env :: env where
  "no_webgl_env =
     demo_env\<lparr>throws := (\<lambda>st. if st = NewWebGLRenderer
                             then Some (HostError ''Error creating WebGL context.'') else None)\<rparr>"

section \<open>Invariants used in the proofs\<close>

text \<open>After a call of the debounced wrapper: one timer pending, nothing invoked yet.\<close>

definition armed :: "nat \<Rightarrow> nat \<Rightarrow> 'a \<Rightarrow> 'a debounced \<Rightarrow> bool" where
  "armed w t a s \<longleftrightarrow>
     clock s = t \<and> invoked s = [] \<and> wait s = w \<and>
     (\<exists>i. queue s = [\<lparr>tid = i, due = t + w, targs = a\<rparr>] \<and> timeout s = Some i)"

text \<open>
  Between ticks of the running animator: the phrase index is in range, the character
  count is within the phrase (not 0 while shrinking, not the full length while growing),
  and exactly one tick is pending.
\<close>

definition typing_inv :: "string list \<Rightarrow> page \<Rightarrow> bool" where
  "typing_inv phs p \<longleftrightarrow>
     phraseIndex p < length phs \<and> 0 \<le> charIndex p \<and>
     charIndex p \<le> int (length (phs ! phraseIndex p)) \<and>
     (if isDeleting p then 0 < charIndex p else charIndex p < int (length (phs ! phraseIndex p))) \<and>
     length (timeouts p) = 1"

text \<open>
  The renderer's part of the page, and what it becomes when \<open>animate\<close> requests a frame.
  \<open>frames_inv\<close>: at most one frame request is pending, and where the visibility listener
  is registered a pending request belongs to a visible page and is the one \<open>animationId\<close>
  names.
\<close>

definition vis_listener :: "page \<Rightarrow> bool" where
  "vis_listener p = ((Document, ''visibilitychange'', VisibilityChange) \<in> set (listeners p))"

definition frames_inv :: "page \<Rightarrow> bool" where
  "frames_inv p \<longleftrightarrow>
     length (frames p) \<le> 1 \<and>
     (if vis_listener p \<and> frames p \<noteq> []
      then \<not> hidden p \<and> animationId p = Some (hd (frames p)) else True)"

definition renderer_state :: "page \<Rightarrow> nat list \<times> nat \<times> nat option \<times> bool" where
  "renderer_state p = (frames p, next_frame p, animationId p, hidden p)"

definition requested :: "page \<Rightarrow> nat list \<times> nat \<times> nat option \<times> bool" where
  "requested p = (frames p @ [next_frame p], Suc (next_frame p), Some (next_frame p), hidden p)"

text \<open>
  An observed image before its first intersecting entry (\<open>waiting\<close>: deferred source
  \<open>v\<close> still in place, \<open>src\<close> as the document had it, nothing assigned) and after it
  (\<open>loaded\<close>: \<open>v\<close> assigned once, the deferred attribute gone, no longer observed).
\<close>

definition waiting :: "ref \<Rightarrow> string \<Rightarrow> string option \<Rightarrow> page \<Rightarrow> bool" where
  "waiting img v s0 p \<longleftrightarrow>
     getAttribute ''data-src'' (elems p img) = Some v \<and>
     getAttribute ''src'' (elems p img) = s0 \<and>
     img \<in> set (image_observed p) \<and> assigned_to img p = []"

definition loaded :: "ref \<Rightarrow> string \<Rightarrow> page \<Rightarrow> bool" where
  "loaded img v p \<longleftrightarrow>
     getAttribute ''data-src'' (elems p img) = None \<and>
     getAttribute ''src'' (elems p img) = Some v \<and>
     img \<notin> set (image_observed p) \<and> assigned_to img p = [v]"

section \<open>Theorems\<close>

subsection \<open>Debounce\<close>

lemma run_until_idle:
  "next_due T (queue s) = None \<Longrightarrow> run_until T s = s\<lparr>clock := max (clock s) T\<rparr>"
  by (subst run_until.simps) simp

lemma run_until_fire:
  "next_due T (queue s) = Some t \<Longrightarrow> run_until T s = run_until T (fire t s)"
  by (subst run_until.simps) simp

lemma first_call_arms:
  assumes "queue s = []" "invoked s = []" "clock s \<le> t" "wait s = w"
  shows "armed w t a (call_at s (t, a))"
  using assms
  by (simp add: call_at_def run_until_idle next_due_def executedFunction_def
      clearTimeout_def setTimeout_def armed_def Let_def max_def split: option.splits)

lemma next_call_rearms:
  assumes "armed w t a s" "t \<le> t'" "t' < t + w"
  shows "armed w t' a' (call_at s (t', a'))"
proof -
  from assms(1) obtain i where q: "queue s = [\<lparr>tid = i, due = t + w, targs = a\<rparr>]"
    and h: "timeout s = Some i" and c: "clock s = t" and v: "invoked s = []" and w: "wait s = w"
    by (auto simp: armed_def)
  have idle: "next_due t' (queue s) = None"
    using q assms(3) by (simp add: next_due_def)
  have r: "run_until t' s = s\<lparr>clock := max (clock s) t'\<rparr>"
    using idle by (rule run_until_idle)
  show ?thesis
    using q h c v w assms(2)
    by (simp add: call_at_def r executedFunction_def clearTimeout_def setTimeout_def
        armed_def Let_def max_def)
qed

lemma armed_fires_once:
  assumes "armed w t a s"
  shows "invoked (run_until T s) = (if T < t + w then [] else [(t + w, a)])"
proof -
  from assms obtain i where q: "queue s = [\<lparr>tid = i, due = t + w, targs = a\<rparr>]"
    and h: "timeout s = Some i" and c: "clock s = t" and v: "invoked s = []"
    by (auto simp: armed_def)
  show ?thesis
  proof (cases "T < t + w")
    case True
    then have "next_due T (queue s) = None" using q by (simp add: next_due_def)
    then show ?thesis using True v by (simp add: run_until_idle)
  next
    case False
    let ?t = "\<lparr>tid = i, due = t + w, targs = a\<rparr>"
    have nd: "next_due T (queue s) = Some ?t" using q False by (simp add: next_due_def)
    have f: "queue (fire ?t s) = [] \<and> invoked (fire ?t s) = [(t + w, a)]"
      using q h c v by (simp add: fire_def later_def clearTimeout_def Let_def max_def)
    then have "next_due T (queue (fire ?t s)) = None" by (simp add: next_due_def)
    then have "run_until T (fire ?t s) = (fire ?t s)\<lparr>clock := max (clock (fire ?t s)) T\<rparr>"
      by (rule run_until_idle)
    then show ?thesis using False f by (simp add: run_until_fire[OF nd])
  qed
qed

lemma burst_arms:
  assumes "armed w t a s" "burst w ((t, a) # cs)"
  shows "armed w (fst (last ((t, a) # cs))) (snd (last ((t, a) # cs))) (foldl call_at s cs)"
  using assms
proof (induction cs arbitrary: t a s)
  case Nil
  then show ?case by simp
next
  case (Cons c cs)
  obtain t' a' where c: "c = (t', a')" by (cases c)
  from Cons.prems(2) c have le: "t \<le> t'" and lt: "t' < t + w" and b: "burst w ((t', a') # cs)"
    by simp_all
  have "armed w t' a' (call_at s (t', a'))"
    using Cons.prems(1) le lt by (rule next_call_rearms)
  from Cons.IH[OF this b] show ?case using c by simp
qed

text \<open>
  C1. For every wait \<open>w\<close> and every burst of \<open>N \<ge> 1\<close> calls of the wrapper returned by
  \<open>debounce(func, w)\<close>, each call less than \<open>w\<close> after the one before, \<open>func\<close> is invoked
  exactly once, \<open>w\<close> after the last call and with the last call's arguments: whatever the
  instant \<open>T\<close> up to which the host has run its timers, the log of invocations is empty
  before that instant and holds that single invocation from then on.
\<close>

theorem debounce_burst_fires_last_once:
  assumes "cs \<noteq> []" and "burst w cs"
  shows "invoked (run_until T (foldl call_at (debounce w) cs)) =
           (if T < fst (last cs) + w then [] else [(fst (last cs) + w, snd (last cs))])"
proof -
  from assms(1) obtain t a ds where cs: "cs = (t, a) # ds" by (cases cs) auto
  have "armed w t a (call_at (debounce w) (t, a))"
    by (rule first_call_arms) (simp_all add: debounce_def)
  then have "armed w (fst (last cs)) (snd (last cs)) (foldl call_at (debounce w) cs)"
    using burst_arms[of w t a "call_at (debounce w) (t, a)" ds] assms(2) cs by simp
  then show ?thesis by (rule armed_fires_once)
qed

theorem debounce_burst_witness:
  "[(0::nat, ''a''), (100, ''b''), (300, ''c'')] \<noteq> [] \<and>
   burst 250 [(0::nat, ''a''), (100, ''b''), (300, ''c'')] \<and>
   invoked (run_until 1000 (foldl call_at (debounce 250) [(0, ''a''), (100, ''b''), (300, ''c'')]))
     = [(550, ''c'')]"
  using debounce_burst_fires_last_once[of "[(0::nat, ''a''), (100, ''b''), (300, ''c'')]" 250 1000]
  by simp

subsection \<open>Elements and the store\<close>

lemma elems_update_el [simp]:
  "elems (update_el r f p) r' = (if r' = r then f (elems p r) else elems p r')"
  by (simp add: update_el_def)

lemma update_el_same: "f (elems p r) = elems p r \<Longrightarrow> update_el r f p = p"
  by (simp add: update_el_def)

lemma contains_toggle [simp]:
  "classList_contains c (classList_toggle c' b el) = (if c = c' then b else classList_contains c el)"
  by (auto simp: classList_contains_def classList_toggle_def classList_add_def classList_remove_def)

lemma contains_setAttribute [simp]:
  "classList_contains c (setAttribute k v el) = classList_contains c el"
  by (simp add: classList_contains_def setAttribute_def)

lemma toggle_same: "classList_contains c el = b \<Longrightarrow> classList_toggle c b el = el"
  by (auto simp: classList_contains_def classList_toggle_def classList_add_def classList_remove_def)

lemma getAttribute_setAttribute [simp]:
  "getAttribute k (setAttribute k' v el) = (if k = k' then Some v else getAttribute k el)"
  by (simp add: getAttribute_def setAttribute_def update_conv')

lemma getAttribute_toggle [simp]:
  "getAttribute k (classList_toggle c b el) = getAttribute k el"
  by (simp add: getAttribute_def classList_toggle_def classList_add_def classList_remove_def)

lemma setAttribute_same: "getAttribute k el = Some v \<Longrightarrow> setAttribute k v el = el"
  by (simp add: getAttribute_def setAttribute_def update_triv)

lemma update_el_fields [simp]:
  "hidden (update_el r f p) = hidden p"
  "listeners (update_el r f p) = listeners p"
  "focused (update_el r f p) = focused p"
  "console (update_el r f p) = console p"
  "section_observed (update_el r f p) = section_observed p"
  "phraseIndex (update_el r f p) = phraseIndex p"
  "charIndex (update_el r f p) = charIndex p"
  "isDeleting (update_el r f p) = isDeleting p"
  "now (update_el r f p) = now p"
  "timeouts (update_el r f p) = timeouts p"
  "timer_invocations (update_el r f p) = timer_invocations p"
  "frames (update_el r f p) = frames p"
  "next_frame (update_el r f p) = next_frame p"
  "animationId (update_el r f p) = animationId p"
  "renders (update_el r f p) = renders p"
  "image_observed (update_el r f p) = image_observed p"
  "src_assigned (update_el r f p) = src_assigned p"
  by (simp_all add: update_el_def)

subsection \<open>Sidebar\<close>

lemma toggle_result:
  assumes "hamburger e = Some hb" and "sidebar e = Some sb" and "overlay e = Some ov"
  shows "\<exists>q. toggleSidebar e sh p = Ok q \<and>
             sidebar_visible e q = (case sh of Some b \<Rightarrow> b | None \<Rightarrow> \<not> sidebar_visible e p)"
  using assms
  by (cases sh) (simp_all add: toggleSidebar_def sidebar_visible_def Let_def)

lemma toggle_idem:
  assumes "hamburger e = Some hb" and "sidebar e = Some sb" and "overlay e = Some ov"
    and "toggleSidebar e (Some b) p = Ok q"
  shows "toggleSidebar e (Some b) q = Ok q"
proof -
  have q: "q = update_el hb (setAttribute ''aria-expanded'' (if b then ''true'' else ''false''))
            (update_el (body e) (classList_toggle ''sidebar-open'' b)
              (update_el ov (classList_toggle ''show'' b)
                (update_el sb (classList_toggle ''show'' b)
                  (update_el hb (classList_toggle ''active'' b) p))))"
    using assms by (simp add: toggleSidebar_def Let_def)
  have 1: "update_el hb (classList_toggle ''active'' b) q = q"
    by (rule update_el_same, rule toggle_same) (simp add: q)
  have 2: "update_el sb (classList_toggle ''show'' b) q = q"
    by (rule update_el_same, rule toggle_same) (simp add: q)
  have 3: "update_el ov (classList_toggle ''show'' b) q = q"
    by (rule update_el_same, rule toggle_same) (simp add: q)
  have 4: "update_el (body e) (classList_toggle ''sidebar-open'' b) q = q"
    by (rule update_el_same, rule toggle_same) (simp add: q)
  have 5: "update_el hb (setAttribute ''aria-expanded'' (if b then ''true'' else ''false'')) q = q"
    by (rule update_el_same, rule setAttribute_same) (simp add: q)
  show ?thesis
    using assms(1-3) by (simp add: toggleSidebar_def Let_def 1 2 3 4 5)
qed

text \<open>
  C8. With the button, the panel and the overlay present (whichever nodes they are, the
  same node included), from any page: \<open>toggleSidebar(b)\<close> returns and leaves the panel
  shown exactly when \<open>b\<close> is true; \<open>toggleSidebar()\<close> returns and flips the state;
  \<open>toggleSidebar(true)\<close> then \<open>toggleSidebar()\<close> leaves the panel hidden; and
  \<open>toggleSidebar(false)\<close> leaves it hidden, a second \<open>toggleSidebar(false)\<close> changing
  nothing on the page.
\<close>

theorem toggle_forces_or_flips:
  assumes "hamburger e = Some hb" and "sidebar e = Some sb" and "overlay e = Some ov"
  shows "(\<exists>q. toggleSidebar e (Some b) p = Ok q \<and> sidebar_visible e q = b) \<and>
         (\<exists>q. toggleSidebar e None p = Ok q \<and> sidebar_visible e q = (\<not> sidebar_visible e p)) \<and>
         (\<exists>q r. toggleSidebar e (Some True) p = Ok q \<and> toggleSidebar e None q = Ok r \<and>
                 \<not> sidebar_visible e r) \<and>
         (\<exists>q. toggleSidebar e (Some False) p = Ok q \<and> \<not> sidebar_visible e q \<and>
              toggleSidebar e (Some False) q = Ok q)"
proof -
  note tr = toggle_result[OF assms]
  have force: "\<exists>q. toggleSidebar e (Some b) p = Ok q \<and> sidebar_visible e q = b" for b p
    using tr[of "Some b" p] by simp
  have flip: "\<exists>q. toggleSidebar e None p = Ok q \<and> sidebar_visible e q = (\<not> sidebar_visible e p)"
    for p using tr[of None p] by simp
  from force[of True p] obtain q
    where q: "toggleSidebar e (Some True) p = Ok q" "sidebar_visible e q" by auto
  from flip[of q] q(2) obtain r where "toggleSidebar e None q = Ok r" "\<not> sidebar_visible e r"
    by auto
  with q have third: "\<exists>q r. toggleSidebar e (Some True) p = Ok q \<and>
      toggleSidebar e None q = Ok r \<and> \<not> sidebar_visible e r" by blast
  from force[of False p] obtain h
    where h: "toggleSidebar e (Some False) p = Ok h" "\<not> sidebar_visible e h" by auto
  from toggle_idem[OF assms h(1)] h
  have fourth: "\<exists>q. toggleSidebar e (Some False) p = Ok q \<and> \<not> sidebar_visible e q \<and>
      toggleSidebar e (Some False) q = Ok q" by blast
  show ?thesis using force[of b p] flip[of p] third fourth by blast
qed

theorem toggle_forces_or_flips_witness:
  "hamburger demo_env = Some 1 \<and> sidebar demo_env = Some 2 \<and> overlay demo_env = Some 3 \<and>
   (\<exists>q. toggleSidebar demo_env (Some True) (fresh_page demo_elems False) = Ok q \<and>
        sidebar_visible demo_env q = True) \<and>
   (\<exists>q r. toggleSidebar demo_env (Some True) (fresh_page demo_elems False) = Ok q \<and>
          toggleSidebar demo_env None q = Ok r \<and> \<not> sidebar_visible demo_env r)"
  using toggle_forces_or_flips[of demo_env 1 2 3 True "fresh_page demo_elems False"]
  by (simp add: demo_env_def)

text \<open>
  C3. The claim: with one of the button, panel and overlay absent, the controller is
  inert, and no later event throws or changes the sidebar's state. The click listeners are
  indeed not attached, but the \<open>keydown\<close> listener is attached without that test. On the
  sample document without the panel, an Escape key press throws a \<open>TypeError\<close>; without
  the overlay and with the panel shown, it hides the panel and then throws.
\<close>

theorem keydown_without_sidebar_throws:
  "init_sidebar (demo_env\<lparr>sidebar := None\<rparr>) (fresh_page demo_elems False) =
     fresh_page demo_elems False \<and>
   (Document, ''keydown'', Keydown) \<in> set (listeners (init_keyboard (fresh_page demo_elems False))) \<and>
   keydown_handler (demo_env\<lparr>sidebar := None\<rparr>) ''Escape'' (fresh_page demo_elems False) =
     Throw TypeError (fresh_page demo_elems False) \<and>
   sidebar_visible (demo_env\<lparr>overlay := None\<rparr>) (fresh_page (demo_elems(2 := shown_panel)) False) \<and>
   (\<exists>q. keydown_handler (demo_env\<lparr>overlay := None\<rparr>) ''Escape''
          (fresh_page (demo_elems(2 := shown_panel)) False) = Throw TypeError q \<and>
        \<not> sidebar_visible (demo_env\<lparr>overlay := None\<rparr>) q)"
  by (simp add: keydown_handler_def init_sidebar_def init_keyboard_def addEventListener_def
      toggleSidebar_def sidebar_visible_def demo_env_def fresh_page_def shown_panel_def
      classList_contains_def classList_toggle_def classList_remove_def blank_def Let_def)

subsection \<open>Scroll-spy\<close>

lemma contains_add [simp]:
  "classList_contains c (classList_add c' el) = (c = c' \<or> classList_contains c el)"
  by (auto simp: classList_contains_def classList_add_def)

lemma contains_remove [simp]:
  "classList_contains c (classList_remove c' el) = (c \<noteq> c' \<and> classList_contains c el)"
  by (auto simp: classList_contains_def classList_remove_def)

lemma attributes_add [simp]: "attributes (classList_add c el) = attributes el"
  by (simp add: classList_add_def)

lemma attributes_remove [simp]: "attributes (classList_remove c el) = attributes el"
  by (simp add: classList_remove_def)

lemma getAttribute_add [simp]: "getAttribute k (classList_add c el) = getAttribute k el"
  by (simp add: getAttribute_def)

lemma getAttribute_remove [simp]: "getAttribute k (classList_remove c el) = getAttribute k el"
  by (simp add: getAttribute_def)

lemma mark_link_attributes [simp]:
  "attributes (elems (mark_link frag p l) r) = attributes (elems p r)"
  by (simp add: mark_link_def Let_def)

lemma mark_link_active:
  "classList_contains ''active'' (elems (mark_link frag p l) r) =
     (if r = l then getAttribute ''href'' (elems p l) = Some frag
      else classList_contains ''active'' (elems p r))"
  by (simp add: mark_link_def Let_def)

lemma mark_links_attributes [simp]:
  "attributes (elems (foldl (mark_link frag) p ls) r) = attributes (elems p r)"
  by (induction ls arbitrary: p) simp_all

lemma mark_links_active:
  "classList_contains ''active'' (elems (foldl (mark_link frag) p ls) r) =
     (if r \<in> set ls then getAttribute ''href'' (elems p r) = Some frag
      else classList_contains ''active'' (elems p r))"
proof (induction ls arbitrary: p)
  case Nil
  then show ?case by simp
next
  case (Cons l ls)
  have href: "getAttribute ''href'' (elems (mark_link frag p l) r) = getAttribute ''href'' (elems p r)"
    for r by (simp add: getAttribute_def)
  show ?case
    by (simp add: Cons.IH href mark_link_active)
qed

lemma section_entry_attributes [simp]:
  "attributes (elems (section_entry e p en) r) = attributes (elems p r)"
  by (simp add: section_entry_def Let_def)

lemma sectionObserver_attributes [simp]:
  "attributes (elems (sectionObserver e es p) r) = attributes (elems p r)"
  unfolding sectionObserver_def by (induction es arbitrary: p) simp_all

lemma sectionObserver_snoc:
  "sectionObserver e (es @ [en]) p = section_entry e (sectionObserver e es p) en"
  by (simp add: sectionObserver_def)

lemma section_entry_active:
  assumes "isIntersecting en" and "l \<in> set (navLinks e)"
  shows "classList_contains ''active'' (elems (section_entry e p en) l) =
           (getAttribute ''href'' (elems p l) = Some (fragment_of (getAttribute ''id'' (elems p (target en)))))"
  using assms by (simp add: section_entry_def Let_def mark_links_active)

lemma demo_elems_simps:
  "demo_elems 11 = blank\<lparr>attributes := [(''id'', ''about'')]\<rparr>"
  "demo_elems 13 = blank"
  "demo_elems 20 = blank\<lparr>attributes := [(''href'', ''#home'')], classList := [''active'']\<rparr>"
  "demo_elems 21 = blank\<lparr>attributes := [(''href'', ''#about'')]\<rparr>"
  "demo_elems 22 = blank\<lparr>attributes := [(''href'', ''#contact'')]\<rparr>"
  "demo_elems 23 = blank\<lparr>attributes := [(''href'', ''#null'')]\<rparr>"
  by (simp_all add: demo_elems_def)

text \<open>
  C5. After the scroll-spy's callback has processed a batch that ends with an intersecting
  entry for a section whose identifier is \<open>s\<close>, a link of the navigation carries the
  \<open>active\<close> class exactly when its \<open>href\<close> is \<open>#s\<close>, whatever the links carried before
  and whatever entries the batch held before that one.
\<close>

theorem scrollspy_marks_exactly_matching_links:
  assumes "isIntersecting en"
    and "getAttribute ''id'' (elems p (target en)) = Some s"
  shows "\<forall>l \<in> set (navLinks e).
           classList_contains ''active'' (elems (sectionObserver e (es @ [en]) p) l) =
             (getAttribute ''href'' (elems p l) = Some (''#'' @ s))"
proof
  fix l assume l: "l \<in> set (navLinks e)"
  let ?q = "sectionObserver e es p"
  have a: "getAttribute k (elems ?q r) = getAttribute k (elems p r)" for k r
    by (simp add: getAttribute_def)
  show "classList_contains ''active'' (elems (sectionObserver e (es @ [en]) p) l) =
             (getAttribute ''href'' (elems p l) = Some (''#'' @ s))"
    using section_entry_active[OF assms(1) l, of ?q] assms(2)
    by (simp add: sectionObserver_snoc a fragment_of_def)
qed

theorem scrollspy_marks_witness:
  "isIntersecting \<lparr>isIntersecting = True, target = 11\<rparr> \<and>
   getAttribute ''id'' (elems (fresh_page demo_elems False) 11) = Some ''about'' \<and>
   map (\<lambda>l. classList_contains ''active''
          (elems (sectionObserver demo_env ([] @ [\<lparr>isIntersecting = True, target = 11\<rparr>])
               (fresh_page demo_elems False)) l)) (navLinks demo_env) = [False, True, False, False]"
  using scrollspy_marks_exactly_matching_links[of "\<lparr>isIntersecting = True, target = 11\<rparr>"
      "fresh_page demo_elems False" "''about''" demo_env "[]"]
  by (simp add: demo_env_def fresh_page_def demo_elems_simps getAttribute_def blank_def)

text \<open>
  C10 (amended). After an intersecting entry for a section whose fragment, \<open>#\<close> followed
  by its identifier and with a missing identifier read as the text \<open>null\<close>, is the \<open>href\<close>
  of no link of the navigation, no link of the navigation carries the \<open>active\<close> class.
\<close>

theorem scrollspy_no_match_clears_all:
  assumes "isIntersecting en"
    and "\<forall>l \<in> set (navLinks e).
           getAttribute ''href'' (elems p l) \<noteq> Some (fragment_of (getAttribute ''id'' (elems p (target en))))"
  shows "\<forall>l \<in> set (navLinks e).
           \<not> classList_contains ''active'' (elems (sectionObserver e (es @ [en]) p) l)"
proof
  fix l assume l: "l \<in> set (navLinks e)"
  let ?q = "sectionObserver e es p"
  have a: "getAttribute k (elems ?q r) = getAttribute k (elems p r)" for k r
    by (simp add: getAttribute_def)
  show "\<not> classList_contains ''active'' (elems (sectionObserver e (es @ [en]) p) l)"
    using section_entry_active[OF assms(1) l, of ?q] assms(2) l
    by (simp add: sectionObserver_snoc a)
qed


theorem scrollspy_no_match_witness:
  "isIntersecting \<lparr>isIntersecting = True, target = 13\<rparr> \<and>
   fragment_of (getAttribute ''id'' (elems (fresh_page demo_elems False) 13)) = ''#null'' \<and>
   map (\<lambda>l. getAttribute ''href'' (elems (fresh_page demo_elems False) l)) [20, 21, 22] =
     [Some ''#home'', Some ''#about'', Some ''#contact''] \<and>
   classList_contains ''active'' (elems (fresh_page demo_elems False) 20) \<and>
   map (\<lambda>l. classList_contains ''active''
          (elems (sectionObserver (demo_env\<lparr>navLinks := [20, 21, 22]\<rparr>)
                    ([] @ [\<lparr>isIntersecting = True, target = 13\<rparr>])
                    (fresh_page demo_elems False)) l)) [20, 21, 22] = [False, False, False]"
  using scrollspy_no_match_clears_all[of "\<lparr>isIntersecting = True, target = 13\<rparr>"
      "demo_env\<lparr>navLinks := [20, 21, 22]\<rparr>" "fresh_page demo_elems False" "[]"]
  by (simp add: demo_env_def fresh_page_def demo_elems_simps getAttribute_def blank_def
      fragment_of_def classList_contains_def)

text \<open>
  C10 as stated fails for a section with no identifier: the template literal reads the
  missing identifier as \<open>#null\<close>, and a link whose \<open>href\<close> is \<open>#null\<close> is marked active.
\<close>

theorem scrollspy_missing_id_marks_null_link:
  "isIntersecting \<lparr>isIntersecting = True, target = 13\<rparr> \<and>
   getAttribute ''id'' (elems (fresh_page demo_elems False) 13) = None \<and>
   classList_contains ''active''
     (elems (sectionObserver demo_env [\<lparr>isIntersecting = True, target = 13\<rparr>]
               (fresh_page demo_elems False)) 23)"
  by (simp add: sectionObserver_def section_entry_def mark_link_active fragment_of_def
      demo_env_def fresh_page_def demo_elems_simps getAttribute_def blank_def)

subsection \<open>Typing animator\<close>

lemma tick_pending:
  assumes "typewriterElement e = Some tw" and "timeouts p = [d]"
  shows "tick e phs p =
           settle (animateTyping e phs tw
             (p\<lparr>now := max (now p) d, timeouts := [],
                timer_invocations := Suc (timer_invocations p)\<rparr>))"
  using assms by (simp add: tick_def settle_def Let_def)

lemma tick_idle: "timeouts p = [] \<Longrightarrow> tick e phs p = p"
  by (simp add: tick_def split: option.splits)

lemma tick_step:
  assumes inv: "typing_inv phs p" and rm: "\<not> prefersReducedMotion e"
    and tw: "typewriterElement e = Some tw" and ne: "[] \<notin> set phs"
  shows "typing_inv phs (tick e phs p) \<and>
         charIndex (tick e phs p) = (if isDeleting p then charIndex p - 1 else charIndex p + 1) \<and>
         isDeleting (tick e phs p) =
           (if isDeleting p then charIndex (tick e phs p) \<noteq> 0
            else charIndex (tick e phs p) = int (length (phs ! phraseIndex p))) \<and>
         phraseIndex (tick e phs p) =
           (if isDeleting p \<and> charIndex (tick e phs p) = 0
            then (phraseIndex p + 1) mod length phs else phraseIndex p) \<and>
         displayed e (tick e phs p) =
           take (nat (charIndex (tick e phs p))) (phs ! phraseIndex (tick e phs p)) \<and>
         int (length (displayed e (tick e phs p))) = charIndex (tick e phs p) \<and>
         timer_invocations (tick e phs p) = Suc (timer_invocations p)"
proof -
  from inv obtain d where d: "timeouts p = [d]"
    by (cases "timeouts p") (auto simp: typing_inv_def)
  have lt: "phraseIndex p < length phs" using inv by (simp add: typing_inv_def)
  then have pos: "0 < length (phs ! phraseIndex p)"
    using ne by (metis length_greater_0_conv nth_mem)
  have "0 < length phs" using lt by (cases phs) simp_all
  then have nx: "(phraseIndex p + 1) mod length phs < length phs" by (rule mod_less_divisor)
  then have pos': "0 < length (phs ! ((phraseIndex p + 1) mod length phs))"
    using ne by (metis length_greater_0_conv nth_mem)
  show ?thesis
  proof (cases "isDeleting p")
    case True
    then show ?thesis
      using inv rm tw lt pos pos' nx
      unfolding tick_pending[OF tw d]
      by (auto simp: typing_inv_def animateTyping_def settle_def Let_def schedule_tick_def
          displayed_def update_el_def substring0_def)
  next
    case False
    then show ?thesis
      using inv rm tw lt pos pos' nx
      unfolding tick_pending[OF tw d]
      by (auto simp: typing_inv_def animateTyping_def settle_def Let_def schedule_tick_def
          displayed_def update_el_def substring0_def)
  qed
qed

lemma typing_after_Suc: "typing_after e phs els (Suc n) = tick e phs (typing_after e phs els n)"
  by (simp add: typing_after_def)

lemma typing_after_0:
  "typewriterElement e = Some tw \<Longrightarrow>
   typing_after e phs els 0 = (fresh_page els False)\<lparr>timeouts := [500]\<rparr>"
  by (simp add: typing_after_def init_typing_def schedule_tick_def fresh_page_def)

lemma typing_inv_after:
  assumes rm: "\<not> prefersReducedMotion e" and tw: "typewriterElement e = Some tw"
    and ne: "phs \<noteq> []" "[] \<notin> set phs"
  shows "typing_inv phs (typing_after e phs els n)"
proof (induction n)
  case 0
  have "phs ! 0 \<in> set phs" using ne(1) by simp
  then have "phs ! 0 \<noteq> []" using ne(2) by metis
  then show ?case using ne(1)
    by (simp add: typing_after_0[OF tw] typing_inv_def fresh_page_def)
next
  case (Suc n)
  then show ?case
    using tick_step[OF Suc rm tw ne(2)] by (simp add: typing_after_Suc)
qed

lemma reduced_motion_first_tick:
  assumes rm: "prefersReducedMotion e" and tw: "typewriterElement e = Some tw" and ne: "phs \<noteq> []"
  shows "timeouts (typing_after e phs els 1) = [] \<and>
         timer_invocations (typing_after e phs els 1) = 1 \<and>
         displayed e (typing_after e phs els 1) = phs ! 0"
proof -
  have d: "timeouts (typing_after e phs els 0) = [500]" by (simp add: typing_after_0[OF tw])
  have "typing_after e phs els 1 = tick e phs (typing_after e phs els 0)"
    by (simp add: typing_after_def)
  also have "\<dots> = settle (animateTyping e phs tw
       ((typing_after e phs els 0)\<lparr>now := max (now (typing_after e phs els 0)) 500, timeouts := [],
          timer_invocations := Suc (timer_invocations (typing_after e phs els 0))\<rparr>))"
    by (rule tick_pending[OF tw d])
  finally show ?thesis using rm tw ne
    by (simp add: typing_after_0[OF tw] animateTyping_def settle_def Let_def fresh_page_def
        displayed_def update_el_def split: if_splits)
qed

text \<open>
  C2 (amended). With reduced motion set and the typing element present, setting the
  animator up leaves the element's text as the document had it and one timer pending,
  due at 500 ms. That timer is the only one ever invoked: its callback runs once, leaves
  the first phrase of the list as the text and schedules nothing, so after it the text is
  the first phrase for good, the count of timer invocations stays 1 and no timer is
  pending.
\<close>

theorem reduced_motion_ticks_once:
  assumes rm: "prefersReducedMotion e" and tw: "typewriterElement e = Some tw" and ne: "phs \<noteq> []"
  shows "timeouts (typing_after e phs els 0) = [500] \<and>
         timer_invocations (typing_after e phs els 0) = 0 \<and>
         displayed e (typing_after e phs els 0) = textContent (els tw) \<and>
         (\<forall>n. timeouts (typing_after e phs els (Suc n)) = [] \<and>
              timer_invocations (typing_after e phs els (Suc n)) = 1 \<and>
              displayed e (typing_after e phs els (Suc n)) = phs ! 0)"
proof -
  have later: "timeouts (typing_after e phs els (Suc n)) = [] \<and>
              timer_invocations (typing_after e phs els (Suc n)) = 1 \<and>
              displayed e (typing_after e phs els (Suc n)) = phs ! 0" for n
  proof (induction n)
    case 0
    show ?case using reduced_motion_first_tick[OF assms, of els] by simp
  next
    case (Suc n)
    then have "tick e phs (typing_after e phs els (Suc n)) = typing_after e phs els (Suc n)"
      by (simp add: tick_idle)
    then show ?case using Suc by (simp add: typing_after_Suc)
  qed
  show ?thesis
    using later tw by (simp add: typing_after_0[OF tw] displayed_def fresh_page_def)
qed

theorem reduced_motion_ticks_once_witness:
  "prefersReducedMotion (demo_env\<lparr>prefersReducedMotion := True\<rparr>) \<and>
   typewriterElement (demo_env\<lparr>prefersReducedMotion := True\<rparr>) = Some 5 \<and> phrases \<noteq> [] \<and>
   timeouts (typing_after (demo_env\<lparr>prefersReducedMotion := True\<rparr>) phrases demo_elems 0) = [500] \<and>
   timer_invocations (typing_after (demo_env\<lparr>prefersReducedMotion := True\<rparr>) phrases demo_elems 7) = 1 \<and>
   displayed (demo_env\<lparr>prefersReducedMotion := True\<rparr>)
     (typing_after (demo_env\<lparr>prefersReducedMotion := True\<rparr>) phrases demo_elems 7) = ''developer.''"
  using reduced_motion_ticks_once[of "demo_env\<lparr>prefersReducedMotion := True\<rparr>" 5 phrases demo_elems]
  by (simp add: demo_env_def phrases_def eval_nat_numeral)

text \<open>
  C2 as stated fails: on the sample document with reduced motion set, the text is still
  empty once the animator is set up, not the first phrase, and one timer invocation has
  occurred after the first tick.
\<close>

theorem reduced_motion_invokes_a_timer:
  "displayed (demo_env\<lparr>prefersReducedMotion := True\<rparr>)
     (typing_after (demo_env\<lparr>prefersReducedMotion := True\<rparr>) phrases demo_elems 0) = [] \<and>
   phrases ! 0 = ''developer.'' \<and>
   timer_invocations (typing_after (demo_env\<lparr>prefersReducedMotion := True\<rparr>) phrases demo_elems 1) = 1"
proof -
  let ?e = "demo_env\<lparr>prefersReducedMotion := True\<rparr>"
  have tw: "typewriterElement ?e = Some 5" by (simp add: demo_env_def)
  have a: "timer_invocations (typing_after ?e phrases demo_elems 1) = 1"
    using reduced_motion_first_tick[OF _ tw, of phrases demo_elems] by (simp add: phrases_def)
  have b: "displayed ?e (typing_after ?e phrases demo_elems 0) = []"
    by (simp add: typing_after_0[OF tw] displayed_def tw fresh_page_def demo_elems_def blank_def)
  have c: "phrases ! 0 = ''developer.''" by (simp add: phrases_def)
  from a b c show ?thesis by blast
qed

text \<open>
  C4 (amended). With reduced motion off and the phrase list \<open>["a.", "bb."]\<close>, the texts
  displayed by the first five ticks are \<open>"a"\<close>, \<open>"a."\<close>, \<open>"a"\<close>, \<open>""\<close> and then \<open>"b"\<close>, the
  start of the second phrase. Every tick moves the character count by one, up while
  growing and down while shrinking; growth turns to shrinking when the count reaches the
  phrase's length and shrinking to growth when it reaches zero; and after every tick the
  text is the prefix of the current phrase with the current character count.
\<close>

theorem typing_trace_grows_then_shrinks:
  assumes rm: "\<not> prefersReducedMotion e" and tw: "typewriterElement e = Some tw"
  shows "map (\<lambda>n. displayed e (typing_after e [''a.'', ''bb.''] els n)) [1, 2, 3, 4, 5] =
           [''a'', ''a.'', ''a'', '''', ''b''] \<and>
         (\<forall>n. charIndex (typing_after e [''a.'', ''bb.''] els (Suc n)) =
                (if isDeleting (typing_after e [''a.'', ''bb.''] els n)
                 then charIndex (typing_after e [''a.'', ''bb.''] els n) - 1
                 else charIndex (typing_after e [''a.'', ''bb.''] els n) + 1) \<and>
              isDeleting (typing_after e [''a.'', ''bb.''] els (Suc n)) =
                (if isDeleting (typing_after e [''a.'', ''bb.''] els n)
                 then charIndex (typing_after e [''a.'', ''bb.''] els (Suc n)) \<noteq> 0
                 else charIndex (typing_after e [''a.'', ''bb.''] els (Suc n)) =
                      int (length ([''a.'', ''bb.''] ! phraseIndex (typing_after e [''a.'', ''bb.''] els n)))) \<and>
              displayed e (typing_after e [''a.'', ''bb.''] els (Suc n)) =
                take (nat (charIndex (typing_after e [''a.'', ''bb.''] els (Suc n))))
                  ([''a.'', ''bb.''] ! phraseIndex (typing_after e [''a.'', ''bb.''] els (Suc n))) \<and>
              int (length (displayed e (typing_after e [''a.'', ''bb.''] els (Suc n)))) =
                charIndex (typing_after e [''a.'', ''bb.''] els (Suc n)))"
proof -
  let ?phs = "[''a.'', ''bb.'']"
  let ?S = "typing_after e ?phs els"
  have ne: "[] \<notin> set ?phs" by simp
  have inv: "typing_inv ?phs (?S n)" for n
    by (rule typing_inv_after[OF rm tw]) simp_all
  note t = tick_step[OF inv rm tw ne, folded typing_after_Suc]
  have s0: "charIndex (?S 0) = 0 \<and> \<not> isDeleting (?S 0) \<and> phraseIndex (?S 0) = 0"
    by (simp add: typing_after_0[OF tw] fresh_page_def)
  have s1: "charIndex (?S 1) = 1 \<and> \<not> isDeleting (?S 1) \<and> phraseIndex (?S 1) = 0 \<and>
            displayed e (?S 1) = ''a''"
    using t[of 0] s0 by simp
  have s2: "charIndex (?S 2) = 2 \<and> isDeleting (?S 2) \<and> phraseIndex (?S 2) = 0 \<and>
            displayed e (?S 2) = ''a.''"
    using t[of 1] s1 by (simp add: numeral_2_eq_2)
  have s3: "charIndex (?S 3) = 1 \<and> isDeleting (?S 3) \<and> phraseIndex (?S 3) = 0 \<and>
            displayed e (?S 3) = ''a''"
    using t[of 2] s2 by (simp add: numeral_3_eq_3 numeral_2_eq_2)
  have s4: "charIndex (?S 4) = 0 \<and> \<not> isDeleting (?S 4) \<and> phraseIndex (?S 4) = 1 \<and>
            displayed e (?S 4) = ''''"
    using t[of 3] s3 by (simp add: eval_nat_numeral)
  have s5: "displayed e (?S 5) = ''b''"
    using t[of 4] s4 by (simp add: eval_nat_numeral)
  have trace: "map (\<lambda>n. displayed e (?S n)) [1, 2, 3, 4, 5] = [''a'', ''a.'', ''a'', [], ''b'']"
    using s1 s2 s3 s4 s5 by simp
  from trace t show ?thesis by blast
qed

theorem typing_trace_witness:
  "\<not> prefersReducedMotion demo_env \<and> typewriterElement demo_env = Some 5 \<and>
   map (\<lambda>n. displayed demo_env (typing_after demo_env [''a.'', ''bb.''] demo_elems n)) [1, 2, 3, 4, 5] =
     [''a'', ''a.'', ''a'', '''', ''b'']"
proof -
  have h1: "\<not> prefersReducedMotion demo_env" by (simp add: demo_env_def)
  have h2: "typewriterElement demo_env = Some 5" by (simp add: demo_env_def)
  from typing_trace_grows_then_shrinks[OF h1 h2, of demo_elems] h1 h2 show ?thesis by blast
qed

text \<open>
  C4 as stated fails: the texts displayed during the first phrase are not \<open>"a"\<close>, \<open>"a."\<close>,
  \<open>""\<close>; the third tick shows \<open>"a"\<close> again and only the fourth shows the empty text.
\<close>

theorem typing_trace_third_tick_not_empty:
  "map (\<lambda>n. displayed demo_env (typing_after demo_env [''a.'', ''bb.''] demo_elems n)) [1, 2, 3] \<noteq>
     [''a'', ''a.'', '''']"
  by (simp add: typing_after_def tick_def animateTyping_def init_typing_def schedule_tick_def
      fresh_page_def demo_env_def displayed_def update_el_def substring0_def Let_def
      eval_nat_numeral typeSpeed_def deleteSpeed_def delayBetweenPhrases_def)


subsection \<open>Particle-field renderer: the set-up\<close>

lemma run_steps_Ok_all:
  "run_steps fs p = Ok q \<Longrightarrow> f \<in> set fs \<Longrightarrow> \<exists>p' q'. f p' = Ok q'"
proof (induction fs arbitrary: p)
  case Nil
  then show ?case by simp
next
  case (Cons g gs)
  then show ?case by (cases "g p") (auto split: outcome.splits)
qed

lemma host_call_Ok: "host_call e st p = Ok q \<Longrightarrow> throws e st = None"
  by (simp add: host_call_def split: option.splits)

lemma host_call_Throw: "host_call e st p = Throw err q \<Longrightarrow> throws e st = Some err"
  by (simp add: host_call_def split: option.splits)

lemma run_steps_Throw_some:
  "run_steps fs p = Throw err q \<Longrightarrow> \<exists>f p'. f \<in> set fs \<and> f p' = Throw err q"
proof (induction fs arbitrary: p)
  case Nil
  then show ?case by simp
next
  case (Cons g gs)
  then show ?case by (cases "g p") (auto split: outcome.splits)
qed

lemma animate_Ok:
  assumes "animate e p = Ok q"
  shows "throws e GetElapsedTime = None \<and> throws e Render = None"
proof -
  obtain p1 where r: "run_steps [host_call e GetElapsedTime, host_call e Render,
            \<lambda>q. Ok (q\<lparr>renders := Suc (renders q)\<rparr>)] p1 = Ok q"
    using assms by (auto simp: animate_def Let_def split: prod.splits)
  from run_steps_Ok_all[OF r, of "host_call e GetElapsedTime"]
       run_steps_Ok_all[OF r, of "host_call e Render"]
  show ?thesis by (auto dest: host_call_Ok)
qed

lemma animate_Throw:
  assumes "animate e p = Throw err q"
  shows "\<exists>st. throws e st = Some err"
proof -
  obtain p1 where r: "run_steps [host_call e GetElapsedTime, host_call e Render,
            \<lambda>q. Ok (q\<lparr>renders := Suc (renders q)\<rparr>)] p1 = Throw err q"
    using assms by (auto simp: animate_def Let_def split: prod.splits)
  from run_steps_Throw_some[OF r] show ?thesis by (auto dest: host_call_Throw)
qed

lemma updateCanvasSize_Ok:
  assumes "updateCanvasSize e p = Ok q"
  shows "throws e SetSize = None \<and> throws e UpdateProjectionMatrix = None"
  using run_steps_Ok_all[OF assms[unfolded updateCanvasSize_def], of "host_call e SetSize"]
        run_steps_Ok_all[OF assms[unfolded updateCanvasSize_def], of "host_call e UpdateProjectionMatrix"]
  by (auto dest: host_call_Ok)

lemma updateCanvasSize_Throw:
  assumes "updateCanvasSize e p = Throw err q"
  shows "\<exists>st. throws e st = Some err"
  using run_steps_Throw_some[OF assms[unfolded updateCanvasSize_def]]
  by (auto dest: host_call_Throw)

lemma setup_Ok_no_throw:
  assumes "particles_setup e p = Ok q"
  shows "throws e st = None"
proof -
  note r = assms[unfolded particles_setup_def]
  have h: "host_call e st' \<in> set [host_call e NewScene, host_call e NewPerspectiveCamera,
        host_call e NewWebGLRenderer, host_call e SetPixelRatio,
        host_call e NewBufferGeometry, host_call e NewFloat32Array,
        host_call e NewBufferAttribute, host_call e SetPositionAttribute,
        host_call e NewPointsMaterial, host_call e NewPoints, host_call e SceneAdd,
        host_call e NewClock] \<Longrightarrow> throws e st' = None" for st'
    using run_steps_Ok_all[OF r, of "host_call e st'"] by (auto dest: host_call_Ok)
  have a: "throws e GetElapsedTime = None \<and> throws e Render = None"
    using run_steps_Ok_all[OF r, of "animate e"] by (auto dest: animate_Ok)
  have u: "throws e SetSize = None \<and> throws e UpdateProjectionMatrix = None"
    using run_steps_Ok_all[OF r, of "updateCanvasSize e"] by (auto dest: updateCanvasSize_Ok)
  show ?thesis using h a u by (cases st) simp_all
qed

lemma setup_Throw_from_host:
  assumes "particles_setup e p = Throw err q"
  shows "\<exists>st. throws e st = Some err"
  using run_steps_Throw_some[OF assms[unfolded particles_setup_def]]
  by (auto dest: host_call_Throw animate_Throw updateCanvasSize_Throw)

lemma setup_throws:
  assumes "throws e st = Some err"
  shows "\<exists>err' q. particles_setup e p = Throw err' q \<and> (\<exists>st'. throws e st' = Some err')"
proof (cases "particles_setup e p")
  case (Ok q)
  from setup_Ok_no_throw[OF this, of st] assms show ?thesis by simp
next
  case (Throw err' q)
  with setup_Throw_from_host[OF Throw] show ?thesis by blast
qed

lemma observe_image_frame [simp]:
  "display_of r (observe_image p i) = display_of r p"
  "console (observe_image p i) = console p"
  by (simp_all add: observe_image_def display_of_def set_style_def Let_def update_conv')

lemma load_now_frame [simp]:
  "display_of r (load_now p i) = display_of r p"
  "console (load_now p i) = console p"
  by (simp_all add: load_now_def assign_src_def display_of_def update_el_def
      setAttribute_def removeAttribute_def)

lemma init_lazy_frame [simp]:
  "display_of r (init_lazy e p) = display_of r p"
  "console (init_lazy e p) = console p"
proof -
  have a: "display_of r (foldl observe_image p is) = display_of r p \<and>
           console (foldl observe_image p is) = console p" for "is" p
    by (induction "is" arbitrary: p) simp_all
  have b: "display_of r (foldl load_now p is) = display_of r p \<and>
           console (foldl load_now p is) = console p" for "is" p
    by (induction "is" arbitrary: p) simp_all
  show "display_of r (init_lazy e p) = display_of r p" "console (init_lazy e p) = console p"
    using a b by (simp_all add: init_lazy_def)
qed

lemma listeners_frame [simp]:
  "display_of r (addEventListener t ev h p) = display_of r p"
  "console (addEventListener t ev h p) = console p"
  by (simp_all add: addEventListener_def display_of_def)

lemma init_smooth_scroll_frame [simp]:
  "display_of r (init_smooth_scroll e p) = display_of r p"
  "console (init_smooth_scroll e p) = console p"
proof -
  have a: "display_of r (foldl (\<lambda>q a. addEventListener (Node a) ''click'' AnchorClick q) p as) =
             display_of r p \<and>
           console (foldl (\<lambda>q a. addEventListener (Node a) ''click'' AnchorClick q) p as) = console p"
    for as p by (induction as arbitrary: p) simp_all
  show "display_of r (init_smooth_scroll e p) = display_of r p"
    "console (init_smooth_scroll e p) = console p"
    using a by (simp_all add: init_smooth_scroll_def)
qed

lemma init_rest_frame:
  "display_of r (init_rest e p) = display_of r p"
  "console (init_rest e p) = console p @ [Log ''Portfolio initialized successfully!'']"
  by (simp_all add: init_rest_def init_keyboard_def Let_def display_of_def[of r "_\<lparr>console := _\<rparr>"])
    (simp_all add: display_of_def[symmetric])

lemma init_rest_keydown:
  "(Document, ''keydown'', Keydown) \<in> set (listeners (init_rest e p))"
  by (simp add: init_rest_def init_keyboard_def addEventListener_def Let_def)

lemma setup_failed_effect:
  "display_of cv (setup_failed cv err p) = Some ''none''"
  "console (setup_failed cv err p) = console p @ [Warn ''Three.js animation failed to initialize:'' err]"
  by (simp_all add: setup_failed_def display_of_def set_style_def update_conv' update_el_def)

text \<open>
  C7. Where the canvas exists, the library is loaded, motion is not reduced and the
  handler reaches the particle-field block, if some call of the set-up throws in this
  host then the set-up throws an exception the host raised, the handler still returns
  normally, and its result is what the components after the block (lazy loader, anchor
  listeners, keyboard listener, final log line) make of the page as the \<open>catch\<close> block
  left it: the warning with that exception is on the console, followed by the final log
  line, the canvas has \<open>display: none\<close>, and the keyboard listener is registered.
\<close>

theorem setup_exception_is_contained:
  assumes cv: "canvas e = Some cv" and three: "three_defined e"
    and rm: "\<not> prefersReducedMotion e"
    and th: "throws e st = Some err"
    and before: "init_before e p = Ok p1"
  shows "\<exists>err' q. particles_setup e p1 = Throw err' q \<and> (\<exists>st'. throws e st' = Some err') \<and>
           DOMContentLoaded e p = Ok (init_rest e (setup_failed cv err' q)) \<and>
           console (init_rest e (setup_failed cv err' q)) =
             console q @ [Warn ''Three.js animation failed to initialize:'' err',
                          Log ''Portfolio initialized successfully!''] \<and>
           display_of cv (init_rest e (setup_failed cv err' q)) = Some ''none'' \<and>
           (Document, ''keydown'', Keydown) \<in> set (listeners (init_rest e (setup_failed cv err' q)))"
proof -
  from setup_throws[OF th, of p1] obtain err' q
    where t: "particles_setup e p1 = Throw err' q" and h: "\<exists>st'. throws e st' = Some err'"
    by blast
  have ip: "init_particles e p1 = Ok (setup_failed cv err' q)"
    using cv three rm t by (simp add: init_particles_def)
  have d: "DOMContentLoaded e p = Ok (init_rest e (setup_failed cv err' q))"
    using before ip by (simp add: DOMContentLoaded_def)
  show ?thesis
    using t h d by (simp add: init_rest_frame setup_failed_effect init_rest_keydown)
qed

theorem setup_exception_witness:
  "canvas no_webgl_env = Some 4 \<and> three_defined no_webgl_env \<and>
   \<not> prefersReducedMotion no_webgl_env \<and>
   throws no_webgl_env NewWebGLRenderer = Some (HostError ''Error creating WebGL context.'') \<and>
   (\<exists>p1. init_before no_webgl_env (fresh_page demo_elems False) = Ok p1) \<and>
   (\<exists>q. DOMContentLoaded no_webgl_env (fresh_page demo_elems False) = Ok q \<and>
        display_of 4 q = Some ''none'' \<and>
        (Document, ''keydown'', Keydown) \<in> set (listeners q))"
proof -
  have cv: "canvas no_webgl_env = Some 4" and three: "three_defined no_webgl_env"
    and rm: "\<not> prefersReducedMotion no_webgl_env"
    and th: "throws no_webgl_env NewWebGLRenderer = Some (HostError ''Error creating WebGL context.'')"
    by (simp_all add: no_webgl_env_def demo_env_def)
  obtain p1 where before: "init_before no_webgl_env (fresh_page demo_elems False) = Ok p1"
    by (simp add: init_before_def init_scrollspy_def no_webgl_env_def demo_env_def)
  from setup_exception_is_contained[OF cv three rm th before] cv three rm th before
  show ?thesis by blast
qed


subsection \<open>Particle-field renderer: frame requests\<close>

lemma settle_simps [simp]:
  "settle (Ok q) = q"
  "settle (Throw err q) = q\<lparr>console := console q @ [Uncaught err]\<rparr>"
  by (simp_all add: settle_def)

lemma animate_effect:
  "frames (settle (animate e p)) = frames p @ [next_frame p]"
  "animationId (settle (animate e p)) = Some (next_frame p)"
  "next_frame (settle (animate e p)) = Suc (next_frame p)"
  "hidden (settle (animate e p)) = hidden p"
  "listeners (settle (animate e p)) = listeners p"
  by (simp_all add: animate_def requestAnimationFrame_def host_call_def Let_def
      split: option.splits)

lemma vis_listener_animate [simp]: "vis_listener (settle (animate e p)) = vis_listener p"
  by (simp add: vis_listener_def animate_effect)

lemma page_step_listeners [simp]: "vis_listener (page_step e p ev) = vis_listener p"
proof (cases ev)
  case VisibilityChanged
  then show ?thesis
    by (simp add: page_step_def Let_def visibility_handler_def cancelAnimationFrame_def
        vis_listener_def animate_effect split: option.splits)
next
  case FrameDue
  have h: "vis_listener (foldl (\<lambda>q i. settle (animate e q)) q is) = vis_listener q" for q "is"
    by (induction "is" arbitrary: q) simp_all
  show ?thesis using FrameDue h[of "p\<lparr>frames := []\<rparr>" "frames p"]
    by (simp add: page_step_def vis_listener_def)
qed

lemma page_step_keeps_frames_inv:
  assumes "frames_inv p"
  shows "frames_inv (page_step e p ev)"
proof (cases ev)
  case VisibilityChanged
  show ?thesis
  proof (cases "vis_listener p")
    case False
    then show ?thesis using assms VisibilityChanged
      by (simp add: page_step_def frames_inv_def vis_listener_def Let_def)
  next
    case True
    then show ?thesis using assms VisibilityChanged
      by (cases "frames p"; cases "hidden p")
        (auto simp: page_step_def frames_inv_def vis_listener_def Let_def visibility_handler_def
          cancelAnimationFrame_def animate_effect split: option.splits)
  qed
next
  case FrameDue
  from assms have "frames p = [] \<or> (\<exists>i. frames p = [i])"
    by (cases "frames p") (auto simp: frames_inv_def)
  then show ?thesis
  proof
    assume "frames p = []"
    then show ?thesis using assms FrameDue
      by (simp add: page_step_def frames_inv_def vis_listener_def)
  next
    assume "\<exists>i. frames p = [i]"
    then obtain i where i: "frames p = [i]" by blast
    have "page_step e p ev = settle (animate e (p\<lparr>frames := []\<rparr>))"
      using FrameDue i by (simp add: page_step_def)
    then show ?thesis using assms i
      by (auto simp: frames_inv_def animate_effect vis_listener_def)
  qed
qed

lemma run_keeps_frames_inv:
  "frames_inv p \<Longrightarrow> frames_inv (foldl (page_step e) p evs)"
  by (induction evs arbitrary: p) (simp_all add: page_step_keeps_frames_inv)

lemma foldl_keeps:
  assumes "\<And>q x. g (f q x) = g q"
  shows "g (foldl f p xs) = g p"
  by (induction xs arbitrary: p) (simp_all add: assms)

lemma renderer_state_update_el [simp]:
  "renderer_state (update_el r f p) = renderer_state p"
  by (simp add: renderer_state_def update_el_def)

lemma renderer_state_addEventListener [simp]:
  "renderer_state (addEventListener t ev h p) = renderer_state p"
  by (simp add: renderer_state_def addEventListener_def)

lemma renderer_state_init_before:
  assumes "init_before e p = Ok q"
  shows "renderer_state q = renderer_state p"
proof -
  have s: "renderer_state (init_sidebar e p) = renderer_state p"
    by (simp add: init_sidebar_def foldl_keeps[where g = renderer_state] split: option.splits)
  obtain q1 where q1: "init_scrollspy e (init_sidebar e p) = Ok q1" and q: "q = init_typing e q1"
    using assms by (auto simp: init_before_def split: outcome.splits)
  have "renderer_state q1 = renderer_state (init_sidebar e p)"
    using q1 by (auto simp: init_scrollspy_def renderer_state_def split: if_splits)
  moreover have "renderer_state (init_typing e q1) = renderer_state q1"
    by (simp add: init_typing_def schedule_tick_def renderer_state_def split: option.splits)
  ultimately show ?thesis using s q by simp
qed

lemma renderer_state_init_rest: "renderer_state (init_rest e p) = renderer_state p"
proof -
  have o: "renderer_state (observe_image q i) = renderer_state q" for q i
    by (simp add: observe_image_def Let_def renderer_state_def)
  have l: "renderer_state (load_now q i) = renderer_state q" for q i
    by (simp add: load_now_def assign_src_def renderer_state_def)
  have a: "renderer_state (init_lazy e p) = renderer_state p"
    unfolding init_lazy_def using o l by (simp add: foldl_keeps[where g = renderer_state])
  have b: "renderer_state (init_smooth_scroll e q) = renderer_state q" for q
    unfolding init_smooth_scroll_def by (rule foldl_keeps) simp
  have c: "renderer_state (q\<lparr>console := x\<rparr>) = renderer_state q" for q x
    by (simp add: renderer_state_def)
  show ?thesis
    unfolding init_rest_def init_keyboard_def Let_def by (simp only: c renderer_state_addEventListener b a)
qed

lemma vis_listener_init_rest: "vis_listener (init_rest e p) = vis_listener p"
proof -
  have o: "listeners (observe_image q i) = listeners q" for q i
    by (simp add: observe_image_def Let_def)
  have l: "listeners (load_now q i) = listeners q" for q i
    by (simp add: load_now_def assign_src_def)
  have a: "listeners (init_lazy e p) = listeners p"
    unfolding init_lazy_def using o l by (simp add: foldl_keeps[where g = listeners])
  have s: "vis_listener (addEventListener (Node x) ''click'' AnchorClick q) = vis_listener q" for q x
    by (simp add: vis_listener_def addEventListener_def)
  have b: "vis_listener (init_smooth_scroll e q) = vis_listener q" for q
    unfolding init_smooth_scroll_def by (rule foldl_keeps) (rule s)
  have "vis_listener (init_rest e p) = vis_listener (init_smooth_scroll e (init_lazy e p))"
    by (simp add: init_rest_def init_keyboard_def Let_def vis_listener_def addEventListener_def)
  also have "\<dots> = vis_listener (init_lazy e p)" by (rule b)
  also have "\<dots> = vis_listener p" by (simp add: vis_listener_def a)
  finally show ?thesis .
qed

text \<open>The set-up of a page that is hidden when it loads, and its first change of visibility.\<close>

lemma setup_on_demo:
  "init_particles demo_env p =
     Ok (addEventListener Document ''visibilitychange'' VisibilityChange
          (addEventListener Window ''resize'' HandleResize
            (p\<lparr>frames := frames p @ [next_frame p], next_frame := Suc (next_frame p),
               animationId := Some (next_frame p), renders := Suc (renders p)\<rparr>)))"
  by (simp add: init_particles_def particles_setup_def updateCanvasSize_def animate_def
      requestAnimationFrame_def host_call_def demo_env_def Let_def)

text \<open>
  C6. The claim: at most one frame request is pending in every state the visibility
  events lead to. It fails where the page is hidden when it loads (a tab opened in the
  background): \<open>animate()\<close> has requested frame 0 at set-up, and the first change of
  visibility, to visible, calls \<open>animate()\<close> again without cancelling it, so two requests
  are pending and two render loops run from then on.
\<close>

theorem hidden_start_doubles_frame_requests:
  "\<exists>q. DOMContentLoaded demo_env (fresh_page demo_elems True) = Ok q \<and>
       frames q = [0] \<and>
       frames (page_step demo_env q VisibilityChanged) = [0, 1]"
proof -
  obtain p1 where before: "init_before demo_env (fresh_page demo_elems True) = Ok p1"
    by (simp add: init_before_def init_scrollspy_def demo_env_def)
  have r1: "renderer_state p1 = ([], 0, None, True)"
    using renderer_state_init_before[OF before] by (simp add: renderer_state_def fresh_page_def)
  let ?q1 = "addEventListener Document ''visibilitychange'' VisibilityChange
          (addEventListener Window ''resize'' HandleResize
            (p1\<lparr>frames := frames p1 @ [next_frame p1], next_frame := Suc (next_frame p1),
               animationId := Some (next_frame p1), renders := Suc (renders p1)\<rparr>))"
  let ?q = "init_rest demo_env ?q1"
  have d: "DOMContentLoaded demo_env (fresh_page demo_elems True) = Ok ?q"
    using before by (simp add: DOMContentLoaded_def setup_on_demo)
  have rq: "renderer_state ?q = ([0], 1, Some 0, True)"
    using r1 by (simp add: renderer_state_init_rest) (simp add: renderer_state_def addEventListener_def)
  have vq: "vis_listener ?q"
    by (simp add: vis_listener_init_rest) (simp add: vis_listener_def addEventListener_def)
  have "frames (page_step demo_env ?q VisibilityChanged) = [0, 1]"
    using rq vq
    by (simp add: page_step_def Let_def visibility_handler_def animate_effect
        renderer_state_def vis_listener_def)
  with d rq show ?thesis by (simp add: renderer_state_def)
qed

lemma run_steps_append:
  "run_steps (fs @ gs) p =
     (case run_steps fs p of Ok q \<Rightarrow> run_steps gs q | Throw err q \<Rightarrow> Throw err q)"
  by (induction fs arbitrary: p) (simp_all split: outcome.splits)

lemma renderer_state_console [simp]: "renderer_state (q\<lparr>console := x\<rparr>) = renderer_state q"
  by (simp add: renderer_state_def)

lemma run_steps_neutral:
  assumes "\<And>f q. f \<in> set fs \<Longrightarrow> renderer_state (settle (f q)) = renderer_state q"
  shows "renderer_state (settle (run_steps fs p)) = renderer_state p"
  using assms
proof (induction fs arbitrary: p)
  case Nil
  then show ?case by simp
next
  case (Cons g gs)
  have g: "renderer_state (settle (g p)) = renderer_state p" using Cons.prems by simp
  show ?case
  proof (cases "g p")
    case (Ok q)
    then have "renderer_state (settle (run_steps (g # gs) p)) = renderer_state q"
      using Cons.IH[of q] Cons.prems by simp
    then show ?thesis using g Ok by simp
  next
    case (Throw err q)
    then show ?thesis using g by simp
  qed
qed

lemma host_call_neutral: "renderer_state (settle (host_call e st q)) = renderer_state q"
  by (simp add: host_call_def split: option.splits)

lemma updateCanvasSize_neutral: "renderer_state (settle (updateCanvasSize e q)) = renderer_state q"
  unfolding updateCanvasSize_def by (rule run_steps_neutral) (auto simp: host_call_neutral)

lemma animate_requested: "renderer_state (settle (animate e p)) = requested p"
  by (simp add: renderer_state_def requested_def animate_effect)

lemma requested_cong: "renderer_state q = renderer_state p \<Longrightarrow> requested q = requested p"
  by (simp add: renderer_state_def requested_def)

lemma particles_setup_renderer_state:
  "renderer_state (settle (particles_setup e p)) = renderer_state p \<or>
   renderer_state (settle (particles_setup e p)) = requested p"
proof -
  let ?pre = "[host_call e NewScene, host_call e NewPerspectiveCamera, host_call e NewWebGLRenderer,
        host_call e SetPixelRatio, updateCanvasSize e,
        host_call e NewBufferGeometry, host_call e NewFloat32Array,
        host_call e NewBufferAttribute, host_call e SetPositionAttribute,
        host_call e NewPointsMaterial, host_call e NewPoints, host_call e SceneAdd,
        host_call e NewClock]"
  let ?post = "[\<lambda>q. Ok (addEventListener Window ''resize'' HandleResize q),
        \<lambda>q. Ok (addEventListener Document ''visibilitychange'' VisibilityChange q)]"
  have split: "particles_setup e p =
      (case run_steps ?pre p of
         Ok q \<Rightarrow> run_steps ([animate e] @ ?post) q
       | Throw err q \<Rightarrow> Throw err q)"
    unfolding run_steps_append[symmetric] by (simp add: particles_setup_def)
  have step: "run_steps ([animate e] @ ?post) q =
      (case animate e q of Ok r \<Rightarrow> run_steps ?post r | Throw err r \<Rightarrow> Throw err r)" for q
    by simp
  have pre: "renderer_state (settle (run_steps ?pre q)) = renderer_state q" for q
    by (rule run_steps_neutral) (auto simp: host_call_neutral updateCanvasSize_neutral)
  have post: "renderer_state (settle (run_steps ?post q)) = renderer_state q" for q
    by (rule run_steps_neutral) auto
  show ?thesis
  proof (cases "run_steps ?pre p")
    case (Throw err q)
    then have "particles_setup e p = Throw err q"
      by (simp only: split outcome.case)
    then show ?thesis using pre[of p] Throw by simp
  next
    case (Ok q)
    then have q: "renderer_state q = renderer_state p" using pre[of p] by simp
    have s: "particles_setup e p =
        (case animate e q of Ok r \<Rightarrow> run_steps ?post r | Throw err r \<Rightarrow> Throw err r)"
      by (simp only: split Ok outcome.case step)
    show ?thesis
    proof (cases "animate e q")
      case (Throw err r)
      then have "settle (particles_setup e p) = settle (animate e q)" using s by simp
      then show ?thesis using animate_requested[of e q] requested_cong[OF q] by simp
    next
      case okr: (Ok r)
      then have "renderer_state r = requested p"
        using animate_requested[of e q] requested_cong[OF q] by simp
      moreover have "particles_setup e p = run_steps ?post r" using s okr by simp
      ultimately show ?thesis using post[of r] by simp
    qed
  qed
qed

lemma init_particles_renderer_state:
  "\<exists>q. init_particles e p = Ok q \<and>
       (renderer_state q = renderer_state p \<or> renderer_state q = requested p)"
proof (cases "canvas e")
  case None
  then show ?thesis by (simp add: init_particles_def)
next
  case (Some cv)
  show ?thesis
  proof (cases "three_defined e \<and> \<not> prefersReducedMotion e")
    case False
    then show ?thesis using Some by (auto simp: init_particles_def)
  next
    case True
    have f: "renderer_state (setup_failed cv err q) = renderer_state q" for err q
      by (simp add: setup_failed_def)
    show ?thesis
      using True Some particles_setup_renderer_state[of e p]
      by (cases "particles_setup e p") (auto simp: init_particles_def f)
  qed
qed

lemma loaded_visible_frames_inv:
  assumes "DOMContentLoaded e (fresh_page els False) = Ok q"
  shows "frames_inv q"
proof -
  obtain p1 where before: "init_before e (fresh_page els False) = Ok p1"
    using assms by (cases "init_before e (fresh_page els False)") (simp_all add: DOMContentLoaded_def)
  have r1: "renderer_state p1 = ([], 0, None, False)"
    using renderer_state_init_before[OF before] by (simp add: renderer_state_def fresh_page_def)
  obtain p2 where p2: "init_particles e p1 = Ok p2"
    and r2: "renderer_state p2 = renderer_state p1 \<or> renderer_state p2 = requested p1"
    using init_particles_renderer_state[of e p1] by blast
  have q: "q = init_rest e p2" using assms before p2 by (simp add: DOMContentLoaded_def)
  have "requested p1 = ([0], 1, Some 0, False)"
    using r1 by (simp add: requested_def renderer_state_def)
  then have "renderer_state q = ([], 0, None, False) \<or> renderer_state q = ([0], 1, Some 0, False)"
    using r1 r2 q by (auto simp: renderer_state_init_rest)
  then show ?thesis by (auto simp: frames_inv_def renderer_state_def)
qed

text \<open>
  Where the page is visible when it loads, the invariant of C6 does hold: whatever the
  sequence of visibility changes and frames, at most one frame request is pending.
\<close>

lemma visible_start_single_frame_request:
  assumes "DOMContentLoaded e (fresh_page els False) = Ok q"
  shows "length (frames (foldl (page_step e) q evs)) \<le> 1"
  using run_keeps_frames_inv[OF loaded_visible_frames_inv[OF assms], of e evs]
  by (simp add: frames_inv_def)

subsection \<open>Lazy image loader\<close>

lemma getAttribute_removeAttribute [simp]:
  "getAttribute k (removeAttribute k' el) = (if k = k' then None else getAttribute k el)"
  by (simp add: getAttribute_def removeAttribute_def delete_conv')

lemma getAttribute_onload [simp]: "getAttribute k (el\<lparr>onload := b\<rparr>) = getAttribute k el"
  by (simp add: getAttribute_def)

lemma getAttribute_set_style [simp]: "getAttribute k (set_style n v el) = getAttribute k el"
  by (simp add: getAttribute_def set_style_def)

lemma image_entry_miss:
  assumes "target en \<noteq> img \<or> \<not> isIntersecting en"
  shows "waiting img v s0 (image_entry p en) = waiting img v s0 p"
    and "loaded img v (image_entry p en) = loaded img v p"
  using assms
  by (auto simp: image_entry_def waiting_def loaded_def assign_src_def assigned_to_def Let_def)

lemma image_entry_hit:
  assumes "target en = img" and "isIntersecting en" and "waiting img v s0 p"
  shows "loaded img v (image_entry p en)"
  using assms
  by (auto simp: image_entry_def waiting_def loaded_def assign_src_def assigned_to_def Let_def
      dataset_src_def)

lemma batch_loaded:
  "loaded img v p \<Longrightarrow> img \<notin> target ` set b \<Longrightarrow> loaded img v (imageObserver b p)"
  unfolding imageObserver_def
  by (induction b arbitrary: p) (simp_all add: image_entry_miss)

lemma batch_waiting:
  assumes "waiting img v s0 p" and "distinct (map target b)"
  shows "if list_ex (\<lambda>en. target en = img \<and> isIntersecting en) b
         then loaded img v (imageObserver b p) else waiting img v s0 (imageObserver b p)"
  using assms
proof (induction b arbitrary: p)
  case Nil
  then show ?case by (simp add: imageObserver_def)
next
  case (Cons en b)
  have step: "imageObserver (en # b) p = imageObserver b (image_entry p en)"
    by (simp add: imageObserver_def)
  show ?case
  proof (cases "target en = img")
    case False
    then have "waiting img v s0 (image_entry p en)"
      using Cons.prems(1) by (simp add: image_entry_miss)
    from Cons.IH[OF this] Cons.prems(2) False show ?thesis by (simp add: step)
  next
    case True
    then have nomore: "img \<notin> target ` set b" using Cons.prems(2) by auto
    then have noex: "\<not> list_ex (\<lambda>en. target en = img \<and> isIntersecting en) b"
      by (auto simp: list_ex_iff)
    show ?thesis
    proof (cases "isIntersecting en")
      case hit: True
      have "loaded img v (image_entry p en)"
        using True hit Cons.prems(1) by (rule image_entry_hit)
      then have "loaded img v (imageObserver b (image_entry p en))"
        using nomore by (rule batch_loaded)
      then show ?thesis using True hit by (simp add: step)
    next
      case miss: False
      then have "waiting img v s0 (image_entry p en)"
        using Cons.prems(1) by (simp add: image_entry_miss)
      from Cons.IH[OF this] Cons.prems(2) noex miss show ?thesis by (simp add: step)
    qed
  qed
qed

lemma run_loaded:
  "loaded img v p \<Longrightarrow> deliveries_ok p bs \<Longrightarrow> loaded img v (deliver bs p)"
proof (induction bs arbitrary: p)
  case Nil
  then show ?case by (simp add: deliver_def)
next
  case (Cons b bs)
  have "img \<notin> target ` set b"
    using Cons.prems by (auto simp: batch_ok_def loaded_def list_all_iff)
  then have "loaded img v (imageObserver b p)" using Cons.prems(1) by (simp add: batch_loaded)
  from Cons.IH[OF this] Cons.prems(2) show ?case by (simp add: deliver_def)
qed

lemma run_waiting:
  assumes "waiting img v s0 p" and "deliveries_ok p bs"
  shows "if came_near img bs then loaded img v (deliver bs p) else waiting img v s0 (deliver bs p)"
  using assms
proof (induction bs arbitrary: p)
  case Nil
  then show ?case by (simp add: deliver_def came_near_def)
next
  case (Cons b bs)
  have d: "distinct (map target b)" and rest: "deliveries_ok (imageObserver b p) bs"
    using Cons.prems(2) by (simp_all add: batch_ok_def)
  have step: "deliver (b # bs) p = deliver bs (imageObserver b p)" by (simp add: deliver_def)
  note bw = batch_waiting[OF Cons.prems(1) d]
  show ?case
  proof (cases "list_ex (\<lambda>en. target en = img \<and> isIntersecting en) b")
    case True
    then have "loaded img v (imageObserver b p)" using bw by simp
    then have "loaded img v (deliver bs (imageObserver b p))" using rest by (rule run_loaded)
    then show ?thesis using True by (simp add: step came_near_def)
  next
    case False
    then have "waiting img v s0 (imageObserver b p)" using bw by simp
    from Cons.IH[OF this rest] False show ?thesis by (simp add: step came_near_def)
  qed
qed

lemma observe_all:
  "attributes (elems (foldl observe_image p is) r) = attributes (elems p r) \<and>
   src_assigned (foldl observe_image p is) = src_assigned p \<and>
   set (image_observed (foldl observe_image p is)) = set (image_observed p) \<union> set is"
proof (induction "is" arbitrary: p)
  case Nil
  then show ?case by simp
next
  case (Cons i "is")
  have "attributes (elems (observe_image p i) r) = attributes (elems p r) \<and>
        src_assigned (observe_image p i) = src_assigned p \<and>
        set (image_observed (observe_image p i)) = insert i (set (image_observed p))"
    by (simp add: observe_image_def Let_def set_style_def)
  then show ?case using Cons.IH[of "observe_image p i"] by auto
qed

lemma init_lazy_waiting:
  assumes "io_supported e" and "img \<in> set (lazyImages e p0)" and "src_assigned p0 = []"
  shows "waiting img (dataset_src (elems p0 img)) (getAttribute ''src'' (elems p0 img)) (init_lazy e p0) \<and>
         getAttribute ''data-src'' (elems p0 img) = Some (dataset_src (elems p0 img))"
proof -
  have ne: "lazyImages e p0 \<noteq> []" using assms(2) by auto
  have ds: "getAttribute ''data-src'' (elems p0 img) = Some (dataset_src (elems p0 img))"
    using assms(2) by (auto simp: lazyImages_def dataset_src_def)
  have "init_lazy e p0 = foldl observe_image p0 (lazyImages e p0)"
    using assms(1) ne by (simp add: init_lazy_def)
  then show ?thesis
    using observe_all[of p0 "lazyImages e p0"] assms(2,3) ds
    by (simp add: waiting_def getAttribute_def assigned_to_def)
qed

text \<open>
  Where every batch holds at most one entry for a node, an image loads once. Take an
  image that carries the deferred-source attribute when the loader is set up, on a page
  where the script has assigned no source yet. As long as no entry has reported it as
  intersecting, the script has assigned it no source, its \<open>src\<close> and deferred-source
  attributes are as the document had them and it is still observed. Once an entry has,
  and whatever such deliveries follow, its source has been assigned exactly once, to the
  value of the deferred-source attribute, that attribute is removed and the image is no
  longer observed.
\<close>

lemma lazy_image_loads_once:
  assumes "io_supported e" and "img \<in> set (lazyImages e p0)" and "src_assigned p0 = []"
    and "deliveries_ok (init_lazy e p0) bs"
  shows "getAttribute ''data-src'' (elems p0 img) = Some (dataset_src (elems p0 img)) \<and>
         (if came_near img bs
          then assigned_to img (deliver bs (init_lazy e p0)) = [dataset_src (elems p0 img)] \<and>
               getAttribute ''src'' (elems (deliver bs (init_lazy e p0)) img) =
                 Some (dataset_src (elems p0 img)) \<and>
               getAttribute ''data-src'' (elems (deliver bs (init_lazy e p0)) img) = None \<and>
               img \<notin> set (image_observed (deliver bs (init_lazy e p0)))
          else assigned_to img (deliver bs (init_lazy e p0)) = [] \<and>
               getAttribute ''src'' (elems (deliver bs (init_lazy e p0)) img) =
                 getAttribute ''src'' (elems p0 img) \<and>
               getAttribute ''data-src'' (elems (deliver bs (init_lazy e p0)) img) =
                 getAttribute ''data-src'' (elems p0 img) \<and>
               img \<in> set (image_observed (deliver bs (init_lazy e p0))))"
proof -
  note w = init_lazy_waiting[OF assms(1-3)]
  from run_waiting[OF w[THEN conjunct1] assms(4)] w[THEN conjunct2]
  show ?thesis by (auto simp: waiting_def loaded_def)
qed

lemma demo_lazy_facts:
  "io_supported demo_env"
  "30 \<in> set (lazyImages demo_env (fresh_page demo_elems False))"
  "src_assigned (fresh_page demo_elems False) = []"
  "deliveries_ok (init_lazy demo_env (fresh_page demo_elems False)) demo_batches"
  "came_near 30 demo_batches"
  "dataset_src (elems (fresh_page demo_elems False) 30) = ''a.png''"
     apply (simp_all add: demo_env_def fresh_page_def lazyImages_def init_lazy_def demo_batches_def
      demo_elems_def blank_def getAttribute_def observe_image_def batch_ok_def imageObserver_def
      image_entry_def assign_src_def update_el_def Let_def came_near_def dataset_src_def
      set_style_def removeAttribute_def setAttribute_def queued_entry_def rootMargin_def)
  done

lemma lazy_image_loads_once_demo:
  "io_supported demo_env \<and>
   30 \<in> set (lazyImages demo_env (fresh_page demo_elems False)) \<and>
   src_assigned (fresh_page demo_elems False) = [] \<and>
   deliveries_ok (init_lazy demo_env (fresh_page demo_elems False)) demo_batches \<and>
   came_near 30 demo_batches \<and>
   assigned_to 30 (deliver demo_batches (init_lazy demo_env (fresh_page demo_elems False))) = [''a.png''] \<and>
   30 \<notin> set (image_observed (deliver demo_batches (init_lazy demo_env (fresh_page demo_elems False))))"
  using lazy_image_loads_once[OF demo_lazy_facts(1-4)] demo_lazy_facts
  by simp

lemma image_entry_assigns:
  assumes "isIntersecting en"
  shows "assigned_to (target en) (image_entry p en) =
           assigned_to (target en) p @ [dataset_src (elems p (target en))] \<and>
         getAttribute ''src'' (elems (image_entry p en) (target en)) =
           Some (dataset_src (elems p (target en))) \<and>
         getAttribute ''data-src'' (elems (image_entry p en) (target en)) = None"
  using assms by (simp add: image_entry_def assign_src_def assigned_to_def Let_def)

lemma image_entry_skips: "\<not> isIntersecting en \<Longrightarrow> image_entry p en = p"
  by (simp add: image_entry_def)

text \<open>
  C9. The claim: once an image has come within 100px of the viewport its source is
  assigned exactly once and no second assignment ever occurs. It fails where one batch
  holds two intersecting entries for the image: \<open>unobserve\<close> stops later entries but not
  those already in the batch, and the callback does not test whether the deferred-source
  attribute is still there. On the sample document, with the first image seen at 50px,
  500px and 80px from the viewport before the callback runs, all three entries are for
  an observed node, the source is assigned twice, and the second assignment, read from the
  removed attribute, leaves \<open>src\<close> as the text \<open>undefined\<close>.
\<close>

theorem lazy_image_assigned_twice_in_one_batch:
  "map isIntersecting near_far_near = [True, False, True] \<and>
   list_all (\<lambda>en. target en \<in> set (image_observed (init_lazy demo_env (fresh_page demo_elems False))))
     near_far_near \<and>
   assigned_to 30 (imageObserver near_far_near (init_lazy demo_env (fresh_page demo_elems False))) =
     [''a.png'', ''undefined''] \<and>
   getAttribute ''src''
     (elems (imageObserver near_far_near (init_lazy demo_env (fresh_page demo_elems False))) 30) =
     Some ''undefined''"
proof -
  let ?p0 = "init_lazy demo_env (fresh_page demo_elems False)"
  let ?near = "\<lparr>isIntersecting = True, target = 30\<rparr>"
  let ?far = "\<lparr>isIntersecting = False, target = 30\<rparr>"
  let ?p1 = "image_entry ?p0 ?near"
  have b: "near_far_near = [?near, ?far, ?near]"
    by (simp add: near_far_near_def queued_entry_def rootMargin_def)
  have w: "waiting 30 ''a.png'' (getAttribute ''src'' (elems (fresh_page demo_elems False) 30)) ?p0"
    using init_lazy_waiting[OF demo_lazy_facts(1-3)] demo_lazy_facts(6) by simp
  then have p0: "assigned_to 30 ?p0 = []" "dataset_src (elems ?p0 30) = ''a.png''"
    "30 \<in> set (image_observed ?p0)"
    by (simp_all add: waiting_def dataset_src_def)
  have p1: "assigned_to 30 ?p1 = [''a.png'']" "dataset_src (elems ?p1 30) = ''undefined''"
    using image_entry_assigns[of ?near ?p0] p0 by (simp_all add: dataset_src_def)
  have run: "imageObserver near_far_near ?p0 = image_entry ?p1 ?near"
    by (simp add: b imageObserver_def image_entry_skips[of ?far])
  have p3: "assigned_to 30 (image_entry ?p1 ?near) = [''a.png'', ''undefined'']"
    "getAttribute ''src'' (elems (image_entry ?p1 ?near) 30) = Some ''undefined''"
    using image_entry_assigns[of ?near ?p1] p1 by simp_all
  show ?thesis
    unfolding run using p3 p0(3) by (simp add: b)
qed

end
